theory Spec2Isabelle
  imports Complex_Main "HOL-Library.Multiset" "HOL-Library.Product_Lexorder"
begin

section \<open>Common data\<close>

text \<open>
  Timestamps are integers counting nanoseconds (the resolution of a pandas Timestamp);
  a Timedelta is an integer number of nanoseconds as well.  Only addition, subtraction
  and comparison of timestamps are used by the functions below.
\<close>

type_synonym timestamp = int

definition minutes :: "int \<Rightarrow> int" where
  "minutes n = n * 60000000000"

definition hours :: "int \<Rightarrow> int" where
  "hours n = n * 3600000000000"

datatype py_error = ValueError | KeyError | IndexError | ZeroDivisionError | AttributeError

section \<open>NonWearFilter (algorithms/counts\_cal\_.py)\<close>

text \<open>
  A row of the merged table built by \<open>ActivityCounts.merge_ACs\<close>: the columns
  \<open>time\<close>, the Actigraph count, the smartwatch count, \<open>diff\<close> and \<open>average\<close>.
\<close>

record ac_row =
  time :: timestamp
  Acti :: real
  Watch :: real
  diff :: real
  average :: real

subsection \<open>Second pass: \<open>remove_single_non_wearing\<close>\<close>

definition condition_1 :: "ac_row \<Rightarrow> bool" where
  "condition_1 r \<longleftrightarrow> diff r < 2 * average r \<and> diff r > - 2 * average r"

definition condition_2 :: "ac_row \<Rightarrow> bool" where
  "condition_2 r \<longleftrightarrow> \<bar>diff r\<bar> < 500"

text \<open>
  The function returns the pair (percentage removed, retained rows).  The percentage
  is the value handed to Python's \<open>round(_, 2)\<close>, before the rounding.  The division by
  \<open>len(data)\<close> raises for an empty table.
\<close>

definition remove_single_non_wearing :: "ac_row list \<Rightarrow> py_error + (real \<times> ac_row list)" where
  "remove_single_non_wearing data =
     (let rm_data = filter (\<lambda>r. condition_1 r \<or> condition_2 r) data in
      if length data = 0 then Inl ZeroDivisionError
      else Inr ((real (length data) - real (length rm_data)) / real (length data) * 100,
                rm_data))"

subsection \<open>First pass: \<open>remove_both_non_wearing\<close>\<close>

text \<open>\<open>check_both_zero\<close> of utils/read\_file.py, called with the watch and the Actigraph column.\<close>

definition check_both_zero :: "ac_row list \<Rightarrow> bool" where
  "check_both_zero df_subset \<longleftrightarrow>
     list_all (\<lambda>r. Watch r = 0) df_subset \<and> list_all (\<lambda>r. Acti r = 0) df_subset"

text \<open>
  \<open>pd.date_range(start, end, freq)\<close> with both ends given: the points \<open>start + k * freq\<close>
  that do not exceed \<open>end\<close>; empty when \<open>end\<close> lies before \<open>start\<close>.
\<close>

definition date_range :: "timestamp \<Rightarrow> timestamp \<Rightarrow> int \<Rightarrow> timestamp list" where
  "date_range start stop freq =
     (if stop < start then []
      else map (\<lambda>k. start + int k * freq) [0..<nat ((stop - start) div freq) + 1])"

text \<open>
  The sleep file gives one (in-bed, out-of-bed) pair per night.  The inner loop of
  \<open>remove_both_non_wearing\<close> stops at the first pair that strictly encloses the window
  start.
\<close>

fun insleep :: "(timestamp \<times> timestamp) list \<Rightarrow> timestamp \<Rightarrow> bool" where
  "insleep [] window_start = False"
| "insleep ((t0, t1) # rest) window_start =
     (if window_start > t0 \<and> window_start < t1 then True else insleep rest window_start)"

definition window_rows :: "ac_row list \<Rightarrow> timestamp \<Rightarrow> ac_row list" where
  "window_rows data window_start =
     filter (\<lambda>r. time r \<ge> window_start \<and> time r < window_start + minutes 15) data"

text \<open>
  The loop state: the retained rows \<open>rm_data\<close> and the list \<open>nonwear_start\<close>.  One
  iteration of the loop body for one window start:
\<close>

record both_state =
  rm_data :: "ac_row list"
  nonwear_start :: "timestamp list"

definition both_step :: "ac_row list \<Rightarrow> (timestamp \<times> timestamp) list \<Rightarrow>
    both_state \<Rightarrow> timestamp \<Rightarrow> both_state" where
  "both_step data sleep s window_start =
     (let window = window_rows data window_start in
      if \<not> insleep sleep window_start \<and> length window \<ge> 2 then
        (if check_both_zero (butlast window)
         then s\<lparr>nonwear_start := nonwear_start s @ [time (hd window)]\<rparr>
         else s\<lparr>rm_data := rm_data s @ window\<rparr>)
      else s\<lparr>rm_data := rm_data s @ window\<rparr>)"

text \<open>The window starts the loop runs over.\<close>

definition window_starts :: "ac_row list \<Rightarrow> timestamp list" where
  "window_starts data =
     date_range (Min (set (map time data))) (Max (set (map time data)) - minutes 15) (minutes 15)"

text \<open>
  The function returns the percentage removed (before \<open>round(_, 2)\<close>) and \<open>rm_data\<close>; the
  model returns the final loop state, which also holds the local list \<open>nonwear_start\<close>.
  On an empty table \<open>min()\<close> is NaT and \<open>pd.date_range\<close> raises a ValueError.
\<close>

definition remove_both_non_wearing :: "ac_row list \<Rightarrow> (timestamp \<times> timestamp) list \<Rightarrow>
    py_error + (real \<times> both_state)" where
  "remove_both_non_wearing data sleep =
     (if data = [] then Inl ValueError
      else
        let s = foldl (both_step data sleep) \<lparr>rm_data = [], nonwear_start = []\<rparr>
                  (window_starts data)
        in Inr ((real (length data) - real (length (rm_data s))) / real (length data) * 100, s))"

text \<open>
  The test the loop applies to a window start: the start lies strictly between the in-bed
  and the out-of-bed time of no sleep interval, the window holds at least two samples,
  and both devices read zero on all samples but the last.
\<close>

definition removed_window :: "ac_row list \<Rightarrow> (timestamp \<times> timestamp) list \<Rightarrow>
    timestamp \<Rightarrow> bool" where
  "removed_window data sleep ws \<longleftrightarrow>
     \<not> (\<exists>(t0, t1) \<in> set sleep. t0 < ws \<and> ws < t1)
     \<and> 2 \<le> length (window_rows data ws)
     \<and> (\<forall>r \<in> set (butlast (window_rows data ws)). Watch r = 0 \<and> Acti r = 0)"

text \<open>
  The claim's description of a removed window, in the spec's words.  The spec's intervals,
  sleep intervals included, are half-open: a start falls inside a sleep interval when it
  is at or after the in-bed time and before the out-of-bed time.
\<close>

definition spec_non_wear_window :: "ac_row list \<Rightarrow> (timestamp \<times> timestamp) list \<Rightarrow>
    timestamp \<Rightarrow> bool" where
  "spec_non_wear_window data sleep ws \<longleftrightarrow>
     \<not> (\<exists>(t0, t1) \<in> set sleep. t0 \<le> ws \<and> ws < t1)
     \<and> 2 \<le> length (window_rows data ws)
     \<and> (\<forall>r \<in> set (butlast (window_rows data ws)). Watch r = 0 \<and> Acti r = 0)"
section \<open>ChargingDetector (time\_preprocessing/01\_Watch\_charging.py)\<close>

text \<open>
  A row of the battery table after \<open>battery_csv\<close>: the parsed time, the \<open>state\<close> code and
  the \<open>level\<close>.  \<open>pd.to_numeric(errors='coerce')\<close> turns a missing or unreadable state field
  into NaN, which is \<open>None\<close> here; levels are taken to be integers (percent).
\<close>

record battery_row =
  b_time :: timestamp
  state :: "int option"
  level :: int

subsection \<open>State-transition pass: \<open>find_charging_time\<close>\<close>

text \<open>\<open>Series.isin\<close>: NaN is in no list of codes.\<close>

definition isin :: "int option \<Rightarrow> int list \<Rightarrow> bool" where
  "isin v codes = (case v of None \<Rightarrow> False | Some c \<Rightarrow> c \<in> set codes)"

text \<open>\<open>Series.shift(1)\<close> and \<open>Series.shift(-1)\<close>: positional, the vacated place holds NaN.\<close>

definition shift_1 :: "'a option list \<Rightarrow> 'a option list" where
  "shift_1 xs = (if xs = [] then [] else None # butlast xs)"

definition shift_m1 :: "'a option list \<Rightarrow> 'a option list" where
  "shift_m1 xs = (if xs = [] then [] else tl xs @ [None])"

definition increase_mask :: "int option list \<Rightarrow> bool list" where
  "increase_mask states =
     map2 (\<lambda>prev cur. isin prev [1, 2] \<and> isin cur [3, 4, 5, 6]) (shift_1 states) states"

definition decrease_mask :: "int option list \<Rightarrow> bool list" where
  "decrease_mask states =
     map2 (\<lambda>nxt cur. isin nxt [1, 2] \<and> isin cur [3, 4, 5, 6]) (shift_m1 states) states"

text \<open>\<open>df.loc[mask, 'time']\<close>: the entries of a column where the mask is true.\<close>

definition loc :: "bool list \<Rightarrow> 'a list \<Rightarrow> 'a list" where
  "loc msk col = map snd (filter fst (zip msk col))"

definition detected_starts :: "battery_row list \<Rightarrow> timestamp list" where
  "detected_starts df_battery =
     map (\<lambda>t. t - minutes 2) (loc (increase_mask (map state df_battery)) (map b_time df_battery))"

definition detected_ends :: "battery_row list \<Rightarrow> timestamp list" where
  "detected_ends df_battery =
     map (\<lambda>t. t + minutes 2) (loc (decrease_mask (map state df_battery)) (map b_time df_battery))"

text \<open>
  The reconciliation of unequal counts: \<open>del charge_endtime[0]\<close> when there are fewer
  starts than ends, \<open>charge_starttime[:-1]\<close> when there are more.
\<close>

definition reconcile :: "timestamp list \<Rightarrow> timestamp list \<Rightarrow> timestamp list \<times> timestamp list" where
  "reconcile charge_starttime charge_endtime =
     (if length charge_starttime < length charge_endtime then (charge_starttime, tl charge_endtime)
      else if length charge_starttime > length charge_endtime
        then (butlast charge_starttime, charge_endtime)
      else (charge_starttime, charge_endtime))"

text \<open>
  The battery files are given in the order of their hours, each with the hour its name
  encodes and the result of \<open>battery_csv\<close>: the rows of the file, or \<open>None\<close> for a file
  without any content (\<open>EmptyDataError\<close>).  The frames of the files within the study
  period are concatenated.  When no frame was read, \<open>df_battery\<close> is still the empty
  \<open>pd.DataFrame()\<close> without columns (\<open>None\<close> here) and selecting its \<open>state\<close> column
  raises a KeyError; a file with a header and no rows gives a frame with columns and no
  rows.
\<close>

definition battery_frame :: "(timestamp \<times> battery_row list option) list \<Rightarrow> timestamp \<Rightarrow>
    timestamp \<Rightarrow> battery_row list option" where
  "battery_frame files start_time end_time =
     (let frames = List.map_filter
            (\<lambda>(tstamp, df). if start_time \<le> tstamp \<and> tstamp < end_time then df else None) files
      in if frames = [] then None else Some (concat frames))"

text \<open>
  The final loop reads \<open>charge_endtime[i]\<close> for every position of the start list and
  raises a KeyError when the end list is shorter; apart from that it only prints.  The
  function returns the battery table and the two lists.
\<close>

definition find_charging_time :: "(timestamp \<times> battery_row list option) list \<Rightarrow> timestamp \<Rightarrow>
    timestamp \<Rightarrow> py_error + (battery_row list \<times> timestamp list \<times> timestamp list)" where
  "find_charging_time files start_time end_time =
     (case battery_frame files start_time end_time of
        None \<Rightarrow> Inl KeyError
      | Some df_battery \<Rightarrow>
          let (charge_starttime, charge_endtime) =
                reconcile (detected_starts df_battery) (detected_ends df_battery)
          in if length charge_starttime > length charge_endtime then Inl KeyError
             else Inr (df_battery, charge_starttime, charge_endtime))"

subsection \<open>Level-trend pass: \<open>charging_timev2\<close>\<close>

definition window_size :: nat where "window_size = 40"
definition half_window :: nat where "half_window = 20"
definition buffer_minute :: int where "buffer_minute = 5"
definition increase_thres :: int where "increase_thres = 5"

text \<open>
  \<open>Series.diff()\<close>: the first entry is NaN.  \<open>Series.all()\<close> and \<open>Series.sum()\<close> skip NaN:
  \<open>all()\<close> is true when every number present is non-zero, \<open>sum()\<close> adds the numbers present.
\<close>

fun series_diff :: "int list \<Rightarrow> int option list" where
  "series_diff [] = []"
| "series_diff (x # xs) = None # map2 (\<lambda>cur prev. Some (cur - prev)) xs (x # xs)"

definition series_all :: "int option list \<Rightarrow> bool" where
  "series_all ds = list_all (\<lambda>d. case d of None \<Rightarrow> True | Some v \<Rightarrow> v \<noteq> 0) ds"

definition series_sum :: "int option list \<Rightarrow> int" where
  "series_sum ds = sum_list (map (\<lambda>d. case d of None \<Rightarrow> 0 | Some v \<Rightarrow> v) ds)"

text \<open>
  The test of the first loop, as written: \<open>level_diff[:half_window].all() <= 0\<close> compares
  the truth value returned by \<open>all()\<close> with \<open>0\<close>.
\<close>

definition start_test :: "battery_row list \<Rightarrow> bool" where
  "start_test current_window =
     (let level_diff = series_diff (map level current_window) in
      (of_bool (series_all (take half_window level_diff)) :: int) \<le> 0
      \<and> series_sum (drop half_window level_diff) > increase_thres)"

function scan_starts :: "battery_row list \<Rightarrow> nat \<Rightarrow> timestamp list \<Rightarrow> timestamp list" where
  "scan_starts df_battery i end_times2 =
     (if int i < int (length df_battery) - int window_size then
        (let current_window = take window_size (drop i df_battery) in
         if start_test current_window
         then scan_starts df_battery (i + window_size)
                (end_times2 @ [b_time (hd current_window) - minutes buffer_minute])
         else scan_starts df_battery (i + 1) end_times2)
      else end_times2)"
  by pat_completeness auto
termination
  by (relation "measure (\<lambda>(df_battery, i, end_times2). length df_battery - i)")
     (auto simp: window_size_def)

text \<open>The two tests of the second loop.\<close>

definition end_test_level :: "battery_row list \<Rightarrow> bool" where
  "end_test_level current_window =
     (let level_diff = series_diff (map level current_window) in
      series_sum (take half_window level_diff) > 5
      \<and> series_sum (drop half_window level_diff) \<le> - 1)"

definition end_test_state :: "battery_row list \<Rightarrow> bool" where
  "end_test_state current_window =
     (let statuses = map state current_window in
      list_all (\<lambda>s. case s of None \<Rightarrow> False | Some c \<Rightarrow> c > 2) (take half_window statuses)
      \<and> list_all (\<lambda>s. case s of None \<Rightarrow> False | Some c \<Rightarrow> c \<le> 2)
           (take (window_size + 1 - (half_window + 1)) (drop (half_window + 1) statuses)))"

function scan_ends :: "battery_row list \<Rightarrow> nat \<Rightarrow> timestamp list \<Rightarrow> timestamp list" where
  "scan_ends df_battery i start_times2 =
     (if int i < int (length df_battery) - int window_size then
        (let current_window = take window_size (drop i df_battery) in
         if end_test_level current_window
         then scan_ends df_battery (i + window_size)
                (start_times2 @ [b_time (last current_window) + minutes buffer_minute])
         else if end_test_state current_window
         then scan_ends df_battery (i + window_size)
                (start_times2 @ [b_time (last current_window) + minutes buffer_minute])
         else scan_ends df_battery (i + 1) start_times2)
      else start_times2)"
  by pat_completeness auto
termination
  by (relation "measure (\<lambda>(df_battery, i, start_times2). length df_battery - i)")
     (auto simp: window_size_def)

definition charging_timev2 :: "battery_row list \<Rightarrow> timestamp \<Rightarrow> timestamp \<Rightarrow>
    timestamp list \<times> timestamp list" where
  "charging_timev2 df_battery start_time end_time =
     (scan_ends df_battery 0 [start_time], scan_starts df_battery 0 [] @ [end_time])"

text \<open>
  The claim's description of a charge-start window, in the spec's words: the level
  differences of the first half are all non-increasing and those of the second half sum
  to more than the threshold.
\<close>

definition spec_start_window :: "battery_row list \<Rightarrow> bool" where
  "spec_start_window current_window =
     (let level_diff = series_diff (map level current_window) in
      list_all (\<lambda>d. case d of None \<Rightarrow> True | Some v \<Rightarrow> v \<le> 0) (take half_window level_diff)
      \<and> series_sum (drop half_window level_diff) > increase_thres)"

text \<open>
  Counting functions used in the proofs about the state-transition pass: the number of
  places where a not-charging code (1 or 2) is followed by a charging code (3 to 6), and
  the number of places where a charging code is followed by a not-charging code.
\<close>

fun count_rises :: "int option list \<Rightarrow> nat" where
  "count_rises (a # b # r) =
     (if isin a [1, 2] \<and> isin b [3, 4, 5, 6] then 1 else 0) + count_rises (b # r)"
| "count_rises _ = 0"

fun count_falls :: "int option list \<Rightarrow> nat" where
  "count_falls (a # b # r) =
     (if isin b [1, 2] \<and> isin a [3, 4, 5, 6] then 1 else 0) + count_falls (b # r)"
| "count_falls _ = 0"

section \<open>FileGapDetector (time\_preprocessing/02\_Watch\_times.py)\<close>

subsection \<open>\<open>files_to_time\<close>\<close>

text \<open>
  The two library calls \<open>datetime.strptime(_, "%d.%m.%y_%H")\<close> and
  \<open>_.strftime("%d.%m.%y_%H")\<close> are parameters \<open>strptime\<close> and \<open>strftime\<close> of the model.
  The loop state holds the two output lists, \<open>current_start\<close> (a string or \<open>None\<close>) and
  \<open>previous_datetime\<close> (a datetime or \<open>None\<close>).
\<close>

record files_state =
  nofile_starts :: "timestamp list"
  nofile_ends :: "timestamp list"
  current_start :: "string option"
  previous_datetime :: "timestamp option"

text \<open>Python truth value of \<open>current_start\<close>: \<open>None\<close> and the empty string are false.\<close>

definition truthy :: "string option \<Rightarrow> bool" where
  "truthy s = (case s of None \<Rightarrow> False | Some str \<Rightarrow> str \<noteq> [])"

text \<open>
  The block \<open>if current_start: ...\<close> that appends one interval; it occurs twice in the
  source, inside the loop and after it.  Calling \<open>strftime\<close> on a \<open>previous_datetime\<close> that
  is still \<open>None\<close> would raise.
\<close>

definition append_interval :: "(string \<Rightarrow> timestamp) \<Rightarrow> (timestamp \<Rightarrow> string) \<Rightarrow>
    files_state \<Rightarrow> py_error + files_state" where
  "append_interval strptime strftime s =
     (if truthy (current_start s) then
        (case previous_datetime s of
           None \<Rightarrow> Inl AttributeError
         | Some prev \<Rightarrow>
             if the (current_start s) = strftime prev then
               (let tmp = strptime (the (current_start s)) in
                Inr (s\<lparr>nofile_starts := nofile_starts s @ [tmp],
                       nofile_ends := nofile_ends s @ [tmp + hours 1]\<rparr>))
             else
               Inr (s\<lparr>nofile_starts := nofile_starts s @ [strptime (the (current_start s))],
                      nofile_ends := nofile_ends s @ [prev + hours 1]\<rparr>))
      else Inr s)"

text \<open>\<open>file[:-4]\<close>: the name without its last four characters.\<close>

definition strip_csv :: "string \<Rightarrow> string" where
  "strip_csv file = take (length file - 4) file"

fun files_loop :: "(string \<Rightarrow> timestamp) \<Rightarrow> (timestamp \<Rightarrow> string) \<Rightarrow>
    string list \<Rightarrow> files_state \<Rightarrow> py_error + files_state" where
  "files_loop strptime strftime [] s = Inr s"
| "files_loop strptime strftime (file # rest) s =
     (let current_datetime = strptime (strip_csv file) in
      case (if (case previous_datetime s of None \<Rightarrow> False
                | Some prev \<Rightarrow> current_datetime - prev > hours 1)
            then (case append_interval strptime strftime s of
                    Inl e \<Rightarrow> Inl e
                  | Inr s' \<Rightarrow> Inr (s'\<lparr>current_start := None\<rparr>))
            else Inr s) of
        Inl e \<Rightarrow> Inl e
      | Inr s1 \<Rightarrow>
          files_loop strptime strftime rest
            ((if \<not> truthy (current_start s1)
              then s1\<lparr>current_start := Some (strftime current_datetime)\<rparr> else s1)
             \<lparr>previous_datetime := Some current_datetime\<rparr>))"

definition files_to_time :: "(string \<Rightarrow> timestamp) \<Rightarrow> (timestamp \<Rightarrow> string) \<Rightarrow>
    string list \<Rightarrow> py_error + (timestamp list \<times> timestamp list)" where
  "files_to_time strptime strftime missing_files =
     (case files_loop strptime strftime missing_files
             \<lparr>nofile_starts = [], nofile_ends = [], current_start = None,
              previous_datetime = None\<rparr> of
        Inl e \<Rightarrow> Inl e
      | Inr s \<Rightarrow>
          (case append_interval strptime strftime s of
             Inl e \<Rightarrow> Inl e
           | Inr s' \<Rightarrow> Inr (nofile_starts s', nofile_ends s')))"

text \<open>
  The claim's description, in the spec's words: the missing hours are cut into maximal
  runs whose consecutive timestamps are at most one hour apart.
\<close>

fun spec_runs :: "timestamp list \<Rightarrow> timestamp list list" where
  "spec_runs [] = []"
| "spec_runs [t] = [[t]]"
| "spec_runs (t # u # ts) =
     (if u - t \<le> hours 1
      then (case spec_runs (u # ts) of [] \<Rightarrow> [[t]] | r # rs \<Rightarrow> (t # r) # rs)
      else [t] # spec_runs (u # ts))"

text \<open>Within a run consecutive hours are at most one hour apart.\<close>

fun close_steps :: "timestamp list \<Rightarrow> bool" where
  "close_steps (t # u # ts) \<longleftrightarrow> u - t \<le> hours 1 \<and> close_steps (u # ts)"
| "close_steps _ \<longleftrightarrow> True"

text \<open>Between two neighbouring runs the gap exceeds one hour.\<close>

fun far_apart :: "timestamp list list \<Rightarrow> bool" where
  "far_apart (r # q # rs) \<longleftrightarrow> hd q - last r > hours 1 \<and> far_apart (q # rs)"
| "far_apart _ \<longleftrightarrow> True"

subsection \<open>\<open>combine_battery_nofile\<close>\<close>

text \<open>
  The two sorted series are compared position by position, the positions where the start
  is not strictly before the end are dropped from both, and the table is built from what
  is left.  The comparison loop runs over every position of \<open>combined_starts\<close>, so
  \<open>combined_ends.iloc[i]\<close> raises an IndexError when there are fewer ends than starts.
  \<open>pd.DataFrame\<close> aligns the two series on their index labels; a label that only the end
  series has gets NaT (\<open>None\<close>) in the \<open>Start\<close> column.
\<close>

definition combine_battery_nofile :: "timestamp list \<Rightarrow> timestamp list \<Rightarrow> timestamp list \<Rightarrow>
    timestamp list \<Rightarrow> py_error + (timestamp option \<times> timestamp option) list" where
  "combine_battery_nofile start_times end_times nofile_starts' nofile_ends' =
     (let combined_starts = sort (start_times @ nofile_ends');
          combined_ends = sort (end_times @ nofile_starts')
      in if length combined_starts > length combined_ends then Inl IndexError
         else
           let problem_indices =
                 filter (\<lambda>i. \<not> combined_starts ! i < combined_ends ! i)
                   [0..<length combined_starts];
               kept_starts = filter (\<lambda>i. i \<notin> set problem_indices) [0..<length combined_starts];
               kept_ends = filter (\<lambda>i. i \<notin> set problem_indices) [0..<length combined_ends]
           in Inr (map (\<lambda>i. (if i \<in> set kept_starts then Some (combined_starts ! i) else None,
                              Some (combined_ends ! i)))
                     kept_ends))"
section \<open>TimeSeriesReader (utils/read\_file.py)\<close>

text \<open>
  A cell of a raw CSV column as \<open>pd.read_csv\<close> delivers it: missing (NaN), text that
  \<open>pd.to_numeric(errors='coerce')\<close> cannot read, or a number.  After the coercion a cell
  is a number or NaN (\<open>None\<close>).  \<open>UnixTimestamp\<close> is a whole number of milliseconds.
\<close>

datatype 'a cell = Missing | Unreadable | Number 'a

definition to_numeric :: "'a cell \<Rightarrow> 'a option" where
  "to_numeric c = (case c of Number v \<Rightarrow> Some v | _ \<Rightarrow> None)"

definition is_number :: "'a cell \<Rightarrow> bool" where
  "is_number c = (case c of Number v \<Rightarrow> True | _ \<Rightarrow> False)"

text \<open>
  \<open>datetime.fromtimestamp(x / 1000)\<close>, with the local time zone taken as UTC.  The call
  raises when the result would not be a datetime: a ValueError outside the years it can
  represent (an OSError or OverflowError for still larger magnitudes; all of them are
  exceptions to the callers).  The lower bound is one day after the first datetime,
  because the function probes the local time one day earlier.  The result is exact for
  timestamps up to the year 2242; beyond, the float division can move it by some
  microseconds.
\<close>

definition in_datetime_range :: "int \<Rightarrow> bool" where
  "in_datetime_range ms \<longleftrightarrow> - 62135510400000 \<le> ms \<and> ms < 253402300800000"

definition fromtimestamp :: "int \<Rightarrow> py_error + timestamp" where
  "fromtimestamp ms = (if in_datetime_range ms then Inr (ms * 1000000) else Inl ValueError)"

text \<open>
  \<open>df['UnixTimestamp'].apply(lambda x: fromtimestamp(x/1000) if pd.notnull(x) else x)\<close>:
  row after row; the first call that raises ends the whole \<open>apply\<close>.
\<close>

fun apply_fromtimestamp :: "int option list \<Rightarrow> py_error + timestamp option list" where
  "apply_fromtimestamp [] = Inr []"
| "apply_fromtimestamp (x # xs) =
     (case (case x of None \<Rightarrow> Inr None
            | Some ms \<Rightarrow> (case fromtimestamp ms of Inl e \<Rightarrow> Inl e | Inr t \<Rightarrow> Inr (Some t))) of
        Inl e \<Rightarrow> Inl e
      | Inr t \<Rightarrow> (case apply_fromtimestamp xs of Inl e \<Rightarrow> Inl e | Inr ts \<Rightarrow> Inr (t # ts)))"

definition floor_min :: "timestamp \<Rightarrow> timestamp" where
  "floor_min t = t - t mod minutes 1"

definition ceil_min :: "timestamp \<Rightarrow> timestamp" where
  "ceil_min t = (if t mod minutes 1 = 0 then t else t - t mod minutes 1 + minutes 1)"

text \<open>
  \<open>pd.date_range(start, end, freq, inclusive='left')\<close>: pandas builds the range with both
  ends and then, unless \<open>start\<close> equals \<open>end\<close>, drops the last point when it is \<open>end\<close>.
\<close>

definition date_range_left :: "timestamp \<Rightarrow> timestamp \<Rightarrow> int \<Rightarrow> timestamp list" where
  "date_range_left start stop freq =
     (let pts = date_range start stop freq in
      if start = stop then pts
      else if pts \<noteq> [] \<and> last pts = stop then butlast pts else pts)"

subsection \<open>\<open>acc_watch_csv\<close>\<close>

record acc_raw =
  acc_UnixTimestamp :: "int cell"
  raw_x :: "real cell"
  raw_y :: "real cell"
  raw_z :: "real cell"

text \<open>
  The three scaled axes of a sample.  A frame of the reader is a list of (time, axes)
  pairs, whether the time is a column or, after \<open>set_index('time')\<close>, the index label.
\<close>

record axes =
  acc_X :: "real option"
  acc_Y :: "real option"
  acc_Z :: "real option"

type_synonym acc_frame = "(timestamp \<times> axes) list"

text \<open>
  \<open>df.index.duplicated()\<close> with its default \<open>keep='first'\<close>: an entry is marked when the
  same label occurred before it.
\<close>

definition duplicated :: "'a list \<Rightarrow> bool list" where
  "duplicated labels = map (\<lambda>i. labels ! i \<in> set (take i labels)) [0..<length labels]"

text \<open>
  \<open>set_index('time')\<close>, \<open>df.loc[~df.index.duplicated(), :]\<close> and
  \<open>df.index = df.index.sort_values()\<close>: the rows whose label is not marked are kept, in
  their order; then the index alone is replaced by its sorted values (the rows are not
  reordered with it).
\<close>

definition acc_set_index :: "acc_frame \<Rightarrow> acc_frame" where
  "acc_set_index df =
     (let kept = loc (map Not (duplicated (map fst df))) df
      in zip (sort (map fst kept)) (map snd kept))"

text \<open>
  \<open>df.reindex(idx, method='nearest')\<close> on a sorted index without duplicates: for each
  grid point the row of the nearest label, the later label on a tie.
\<close>

definition nearest_row :: "(timestamp \<times> 'a) list \<Rightarrow> timestamp \<Rightarrow> 'a option" where
  "nearest_row indexed t =
     (let left = filter (\<lambda>(l, v). l \<le> t) indexed;
          right = filter (\<lambda>(l, v). l \<ge> t) indexed
      in if left = [] then (if right = [] then None else Some (snd (hd right)))
         else if right = [] then Some (snd (last left))
         else if t - fst (last left) < fst (hd right) - t then Some (snd (last left))
         else Some (snd (hd right)))"

definition reindex_nearest :: "acc_frame \<Rightarrow> timestamp list \<Rightarrow> acc_frame" where
  "reindex_nearest indexed idx =
     map (\<lambda>t. (t, case nearest_row indexed t of
                     None \<Rightarrow> \<lparr>acc_X = None, acc_Y = None, acc_Z = None\<rparr>
                   | Some a \<Rightarrow> a)) idx"

definition scale_axis :: "real cell \<Rightarrow> real option" where
  "scale_axis c = map_option (\<lambda>v. v / 4096) (to_numeric c)"

text \<open>
  The reader is given the hour \<open>start_time\<close> that the file name encodes and the rows of the
  file.  Rows without a \<open>UnixTimestamp\<close> are dropped, the columns are coerced, the time is
  computed (which can raise) and rows whose time is NaT are dropped; then the rows are
  counted.  The reader returns \<open>None\<close> when it counts fewer than 50 rows, and raises (a
  ValueError from \<open>pd.date_range\<close> on NaT) when no row lies within the hour.
\<close>

definition acc_watch_csv :: "timestamp \<Rightarrow> acc_raw list \<Rightarrow> py_error + acc_frame option" where
  "acc_watch_csv start_time rows =
     (let df0 = filter (\<lambda>r. acc_UnixTimestamp r \<noteq> Missing) rows in
      case apply_fromtimestamp (map (\<lambda>r. to_numeric (acc_UnixTimestamp r)) df0) of
        Inl e \<Rightarrow> Inl e
      | Inr tms \<Rightarrow>
          let df = List.map_filter (\<lambda>(t, r). map_option (\<lambda>t'. (t', r)) t) (zip tms df0) in
          if length df < 50 then Inr None
          else
            let end_time = start_time + hours 1;
                df1 = filter (\<lambda>(t, r). start_time \<le> t \<and> t \<le> end_time) df;
                df2 = map (\<lambda>(t, r). (t, \<lparr>acc_X = scale_axis (raw_x r),
                             acc_Y = scale_axis (raw_y r), acc_Z = scale_axis (raw_z r)\<rparr>)) df1
            in if df2 = [] then Inl ValueError
               else
                 let rounded_start_time = floor_min (Min (set (map fst df2)));
                     rounded_end_time = ceil_min (Max (set (map fst df2)));
                     idx = date_range_left rounded_start_time rounded_end_time 20000000
                 in Inr (Some (reindex_nearest (acc_set_index df2) idx)))"

text \<open>
  \<open>read_watch_acc_folder\<close>: the files are visited in the order of their hours.  The
  accumulated frame is \<open>None\<close> while it is still the empty \<open>pd.DataFrame()\<close> without columns;
  \<open>pd.concat\<close> drops a \<open>None\<close> result silently, and an exception of the reader skips the
  file.  Selecting the \<open>time\<close> column of the frame without columns raises a KeyError.
\<close>

definition concat_frames :: "'a list option \<Rightarrow> 'a list option \<Rightarrow> 'a list option" where
  "concat_frames acc df =
     (case df of None \<Rightarrow> acc
      | Some rows \<Rightarrow> (case acc of None \<Rightarrow> Some rows | Some old \<Rightarrow> Some (old @ rows)))"

fun acc_folder_loop :: "timestamp \<Rightarrow> timestamp \<Rightarrow> (timestamp \<times> acc_raw list) list \<Rightarrow>
    acc_frame option \<Rightarrow> acc_frame option" where
  "acc_folder_loop start_time end_time [] df_samsung = df_samsung"
| "acc_folder_loop start_time end_time ((tstamp, rows) # rest) df_samsung =
     (if start_time - hours 1 < tstamp \<and> tstamp < end_time then
        (case acc_watch_csv tstamp rows of
           Inl e \<Rightarrow> acc_folder_loop start_time end_time rest df_samsung
         | Inr df \<Rightarrow> acc_folder_loop start_time end_time rest (concat_frames df_samsung df))
      else if tstamp > end_time then df_samsung
      else acc_folder_loop start_time end_time rest df_samsung)"

definition read_watch_acc_folder :: "timestamp \<Rightarrow> timestamp \<Rightarrow> (timestamp \<times> acc_raw list) list \<Rightarrow>
    py_error + acc_frame" where
  "read_watch_acc_folder start_time end_time files =
     (case acc_folder_loop start_time end_time files None of
        None \<Rightarrow> Inl KeyError
      | Some df_samsung \<Rightarrow>
          Inr (filter (\<lambda>(t, a). t \<ge> start_time \<and> t < end_time) df_samsung))"

subsection \<open>The zero filling of \<open>get_counts_csv\<close> (algorithms/counts\_cal\_.py)\<close>

text \<open>
  \<open>get_counts_csv\<close> is called by \<open>calculate_AC\<close> on the frame that
  \<open>read_watch_acc_folder\<close> returns for one wear interval, with the sampling period 20 ms
  and the epoch 60 s.  \<open>raw.dropna()\<close> drops the rows with a NaN axis.  The grid from the
  first minute to the last is laid over the frame, a sample with three zero axes is
  inserted at every grid time that the frame lacks, and the whole is sorted by time
  (rows of equal time keep their order here; pandas does not fix it).
\<close>

definition dropna :: "acc_frame \<Rightarrow> (timestamp \<times> real \<times> real \<times> real) list" where
  "dropna raw =
     List.map_filter
       (\<lambda>(t, a). case (acc_X a, acc_Y a, acc_Z a) of
                    (Some x, Some y, Some z) \<Rightarrow> Some (t, x, y, z) | _ \<Rightarrow> None) raw"

definition fill_grid :: "(timestamp \<times> real \<times> real \<times> real) list \<Rightarrow> timestamp list" where
  "fill_grid raw =
     date_range_left (floor_min (Min (set (map fst raw)))) (ceil_min (Max (set (map fst raw))))
       20000000"

text \<open>
  The frame \<open>df\<close> that is handed to the count engine, and the inserted rows \<open>s\<close>.  On a
  frame without a complete row \<open>min()\<close> is NaT and \<open>pd.date_range\<close> raises.
\<close>

definition zero_fill :: "acc_frame \<Rightarrow>
    py_error + ((timestamp \<times> real \<times> real \<times> real) list \<times> (timestamp \<times> real \<times> real \<times> real) list)" where
  "zero_fill raw0 =
     (let raw = dropna raw0 in
      if raw = [] then Inl ValueError
      else
        let idx = fill_grid raw;
            s = map (\<lambda>t. (t, 0, 0, 0)) (filter (\<lambda>t. t \<notin> set (map fst raw)) idx)
        in Inr (sort_key fst (raw @ s), s))"

text \<open>
  The epoch timestamps: \<open>ts.dt.floor('60S').unique()\<close>, the distinct epoch starts in the
  order of their first occurrence.
\<close>

definition floor_epoch :: "timestamp \<Rightarrow> timestamp" where
  "floor_epoch t = t - t mod 60000000000"

definition unique :: "'a list \<Rightarrow> 'a list" where
  "unique xs = rev (remdups (rev xs))"

definition epoch_times :: "(timestamp \<times> real \<times> real \<times> real) list \<Rightarrow> timestamp list" where
  "epoch_times df = unique (map (\<lambda>(t, x, y, z). floor_epoch t) df)"

text \<open>
  The count engine \<open>agcounts.extract.get_counts\<close> is a parameter: it maps the array of
  samples to one row of three axis counts per epoch.  The epoch timestamps are cut to
  the number of rows it returns and put beside them, together with the vector magnitude
  \<open>AC\<close>; a count row beyond the last epoch timestamp gets NaT.
\<close>

definition get_counts_csv :: "((real \<times> real \<times> real) list \<Rightarrow> (real \<times> real \<times> real) list) \<Rightarrow>
    acc_frame \<Rightarrow>
    py_error + ((timestamp option \<times> real \<times> real \<times> real \<times> real) list
                \<times> (timestamp \<times> real \<times> real \<times> real) list)" where
  "get_counts_csv get_counts raw =
     (case zero_fill raw of
        Inl e \<Rightarrow> Inl e
      | Inr (df, s) \<Rightarrow>
          let ts = epoch_times df;
              counts = get_counts (map snd df)
          in Inr (map (\<lambda>i. case counts ! i of (a1, a2, a3) \<Rightarrow>
                          (if i < length ts then Some (ts ! i) else None,
                           a1, a2, a3, sqrt (a1\<^sup>2 + a2\<^sup>2 + a3\<^sup>2)))
                     [0..<length counts],
                  s))"

subsection \<open>\<open>hr_csv\<close>\<close>

record hr_raw =
  hr_UnixTimestamp :: "int cell"
  raw_hr :: "real cell"
  raw_hrIbi :: "real cell"
  raw_status :: "real cell"

record hr_sample =
  hr_time :: timestamp
  hr :: real
  hrIbi :: "real option"

text \<open>
  A pandas timestamp counts nanoseconds in 64 bits; \<open>pd.to_datetime\<close> raises on a datetime
  outside that range.
\<close>

definition in_pandas_range :: "timestamp \<Rightarrow> bool" where
  "in_pandas_range t \<longleftrightarrow> - 9223372036854775808 < t \<and> t \<le> 9223372036854775807"

text \<open>
  The body of \<open>hr_csv\<close> runs inside \<open>try\<close>: any exception is printed and the function
  returns \<open>None\<close>.  The rows are counted after the rows without a \<open>UnixTimestamp\<close> are dropped
  and the time is computed; a row whose timestamp is not a number is still among them
  (its time is NaT) and is dropped only afterwards.
\<close>

definition hr_csv :: "timestamp \<Rightarrow> hr_raw list \<Rightarrow> hr_sample list option" where
  "hr_csv start_time rows =
     (let df0 = filter (\<lambda>r. hr_UnixTimestamp r \<noteq> Missing) rows in
      case apply_fromtimestamp (map (\<lambda>r. to_numeric (hr_UnixTimestamp r)) df0) of
        Inl e \<Rightarrow> None
      | Inr tms \<Rightarrow>
          if \<not> list_all (\<lambda>t. case t of None \<Rightarrow> True | Some t' \<Rightarrow> in_pandas_range t') tms
          then None
          else
            let df = zip tms df0 in
            if length df < 50 then None
            else
              let end_time = start_time + hours 1;
                  df1 = filter (\<lambda>(t, r). case t of None \<Rightarrow> False
                                 | Some t' \<Rightarrow> start_time \<le> t' \<and> t' \<le> end_time) df;
                  df2 = map (\<lambda>(t, r). (t, if to_numeric (raw_status r) \<noteq> Some 1 then None
                                           else to_numeric (raw_hr r), to_numeric (raw_hrIbi r))) df1
              in Some (List.map_filter
                         (\<lambda>(t, h, ibi). case (t, h) of
                              (Some t', Some h') \<Rightarrow>
                                Some \<lparr>hr_time = t' - t' mod 1000000000, hr = h', hrIbi = ibi\<rparr>
                            | _ \<Rightarrow> None) df2))"

text \<open>\<open>read_hr_folder\<close>: the results of the files, in order; \<open>None\<close> results are dropped.\<close>

definition read_hr_folder :: "(timestamp \<times> hr_raw list) list \<Rightarrow> hr_sample list" where
  "read_hr_folder files =
     concat (map (\<lambda>(tstamp, rows). case hr_csv tstamp rows of None \<Rightarrow> [] | Some df \<Rightarrow> df) files)"

subsection \<open>\<open>core_csv\<close>\<close>





section \<open>CosinorMetricEngine (circadian\_calculation\_comparison/01\_Cosinor\_metrics.py)\<close>



section \<open>NonParametricMetricEngine (circadian\_calculation\_comparison/02\_CR\_non\_parametric.py)\<close>

text \<open>
  The input of \<open>non_parametrics\<close> is a frame with the time column and one measurement
  column; it is modelled as a list of (time, value) pairs with real values.  A result
  that pandas reports as NaN or as an infinity is \<open>None\<close>.
\<close>

definition hour_of :: "timestamp \<Rightarrow> int" where
  "hour_of t = (t div hours 1) mod 24"

definition minute_of :: "timestamp \<Rightarrow> int" where
  "minute_of t = (t div minutes 1) mod 60"

text \<open>\<open>mean()\<close> and \<open>var()\<close> of pandas; \<open>var\<close> is the sample variance (\<open>ddof = 1\<close>).\<close>

definition series_mean :: "real list \<Rightarrow> real option" where
  "series_mean xs = (if xs = [] then None else Some (sum_list xs / real (length xs)))"

definition series_var :: "real list \<Rightarrow> real option" where
  "series_var xs =
     (if length xs < 2 then None
      else Some (sum_list (map (\<lambda>x. (x - sum_list xs / real (length xs))\<^sup>2) xs)
                 / (real (length xs) - 1)))"

text \<open>
  \<open>data.groupby(key).mean()\<close>: one mean per key that occurs, the keys in increasing order.
  Every group holds at least one value.
\<close>

definition group_means :: "(timestamp \<Rightarrow> 'k::linorder) \<Rightarrow> (timestamp \<times> real) list \<Rightarrow> real list" where
  "group_means key data =
     map (\<lambda>k. sum_list (map snd (filter (\<lambda>(t, v). key t = k) data))
               / real (length (filter (\<lambda>(t, v). key t = k) data)))
       (sort (remdups (map (\<lambda>(t, v). key t) data)))"

text \<open>Division of two results; a NaN operand or a zero divisor gives no finite number.\<close>

definition ratio :: "real option \<Rightarrow> real option \<Rightarrow> real option" where
  "ratio a b =
     (case (a, b) of (Some x, Some y) \<Rightarrow> (if y = 0 then None else Some (x / y)) | _ \<Rightarrow> None)"

text \<open>\<open>data.diff(1).pow(2)\<close> without its leading NaN, which \<open>mean()\<close> skips.\<close>

definition squared_diffs :: "real list \<Rightarrow> real list" where
  "squared_diffs xs = map2 (\<lambda>cur prev. (cur - prev)\<^sup>2) (tl xs) xs"

definition nlargest :: "nat \<Rightarrow> real list \<Rightarrow> real list" where
  "nlargest n xs = take n (rev (sort xs))"

definition nsmallest :: "nat \<Rightarrow> real list \<Rightarrow> real list" where
  "nsmallest n xs = take n (sort xs)"

record non_parametric_result =
  IS :: "real option"
  IV :: "real option"
  M10 :: "real option"
  L5 :: "real option"
  RA :: "real option"

definition non_parametrics :: "(timestamp \<times> real) list \<Rightarrow> non_parametric_result" where
  "non_parametrics data =
     (let d_fraction = series_var (group_means (\<lambda>t. (hour_of t, minute_of t)) data);
          d_daily = series_var (map snd data);
          d_across = series_mean (squared_diffs (map snd data));
          hourly_activity = group_means hour_of data;
          m10 = series_mean (nlargest 10 hourly_activity);
          l5 = series_mean (nsmallest 5 hourly_activity)
      in \<lparr>IS = ratio d_fraction d_daily,
          IV = ratio d_across d_daily,
          M10 = m10,
          L5 = l5,
          RA = ratio (case (m10, l5) of (Some a, Some b) \<Rightarrow> Some (a - b) | _ \<Rightarrow> None)
                     (case (m10, l5) of (Some a, Some b) \<Rightarrow> Some (a + b) | _ \<Rightarrow> None)\<rparr>)"

text \<open>
  The claim's description of IS, in the spec's words: the variance of the hour-of-day
  group means divided by the overall variance.
\<close>

definition spec_IS_hour_of_day :: "(timestamp \<times> real) list \<Rightarrow> real option" where
  "spec_IS_hour_of_day data = ratio (series_var (group_means hour_of data)) (series_var (map snd data))"

text \<open>
  A signal that repeats identically every 24 hours: the samples of one day, repeated
  on \<open>n_days\<close> consecutive days.
\<close>

definition repeat_daily :: "(timestamp \<times> real) list \<Rightarrow> nat \<Rightarrow> (timestamp \<times> real) list" where
  "repeat_daily day n_days =
     concat (map (\<lambda>d. map (\<lambda>(t, v). (t + int d * hours 24, v)) day) [0..<n_days])"
section \<open>Properties of the NonWearFilter\<close>

subsection \<open>Second pass\<close>

lemma condition_1_abs: "condition_1 r \<longleftrightarrow> \<bar>diff r\<bar> < 2 * average r"
  unfolding condition_1_def by linarith

text \<open>
  C2.  The second pass keeps a row exactly when the absolute difference is below twice
  the average or below 500: on a non-empty table the function returns the rows
  satisfying that test, in their order; a one-row table with diff 400 and average 100 is
  kept, one with diff 1500 and average 1000 is kept, and one with diff 1500 and
  average 100 is removed.
\<close>

theorem remove_single_non_wearing_retains:
  "data \<noteq> [] \<Longrightarrow>
     (\<exists>pct. remove_single_non_wearing data =
        Inr (pct, filter (\<lambda>r. \<bar>diff r\<bar> < 2 * average r \<or> \<bar>diff r\<bar> < 500) data))
     \<and> remove_single_non_wearing [r\<lparr>diff := 400, average := 100\<rparr>]
         = Inr (0, [r\<lparr>diff := 400, average := 100\<rparr>])
     \<and> remove_single_non_wearing [r\<lparr>diff := 1500, average := 1000\<rparr>]
         = Inr (0, [r\<lparr>diff := 1500, average := 1000\<rparr>])
     \<and> remove_single_non_wearing [r\<lparr>diff := 1500, average := 100\<rparr>] = Inr (100, [])"
  by (simp add: remove_single_non_wearing_def condition_1_abs condition_2_def Let_def)

theorem remove_single_non_wearing_retains_witness:
  "remove_single_non_wearing
     [\<lparr>time = 0, Acti = 100, Watch = 500, diff = 400, average = 300\<rparr>,
      \<lparr>time = 60000000000, Acti = 0, Watch = 1500, diff = 1500, average = 750\<rparr>,
      \<lparr>time = 120000000000, Acti = 1200, Watch = 0, diff = - 1200, average = 600\<rparr>,
      \<lparr>time = 180000000000, Acti = 0, Watch = 200, diff = 200, average = 100\<rparr>]
   = Inr (50,
     [\<lparr>time = 0, Acti = 100, Watch = 500, diff = 400, average = 300\<rparr>,
      \<lparr>time = 180000000000, Acti = 0, Watch = 200, diff = 200, average = 100\<rparr>])"
  using remove_single_non_wearing_retains
    [of "[\<lparr>time = 0, Acti = 100, Watch = 500, diff = 400, average = 300\<rparr>,
      \<lparr>time = 60000000000, Acti = 0, Watch = 1500, diff = 1500, average = 750\<rparr>,
      \<lparr>time = 120000000000, Acti = 1200, Watch = 0, diff = - 1200, average = 600\<rparr>,
      \<lparr>time = 180000000000, Acti = 0, Watch = 200, diff = 200, average = 100\<rparr>]"]
  by (simp add: remove_single_non_wearing_def condition_1_def condition_2_def)

subsection \<open>First pass\<close>

lemma insleep_iff: "insleep sleep ws \<longleftrightarrow> (\<exists>(t0, t1) \<in> set sleep. t0 < ws \<and> ws < t1)"
  by (induction sleep ws rule: insleep.induct) auto

lemma check_both_zero_iff:
  "check_both_zero rows \<longleftrightarrow> (\<forall>r \<in> set rows. Watch r = 0 \<and> Acti r = 0)"
  by (auto simp: check_both_zero_def list_all_iff)

lemma both_step_cases:
  "both_step data sleep s ws =
     (if removed_window data sleep ws
      then s\<lparr>nonwear_start := nonwear_start s @ [time (hd (window_rows data ws))]\<rparr>
      else s\<lparr>rm_data := rm_data s @ window_rows data ws\<rparr>)"
  unfolding both_step_def removed_window_def Let_def insleep_iff check_both_zero_iff
  by auto

lemma foldl_both_step:
  "foldl (both_step data sleep) s wss =
     \<lparr>rm_data = rm_data s
        @ concat (map (window_rows data) (filter (\<lambda>ws. \<not> removed_window data sleep ws) wss)),
      nonwear_start = nonwear_start s
        @ map (\<lambda>ws. time (hd (window_rows data ws))) (filter (removed_window data sleep) wss)\<rparr>"
proof (induction wss arbitrary: s)
  case Nil
  show ?case by simp
next
  case (Cons ws wss)
  show ?case
    by (simp only: foldl_Cons Cons.IH) (simp add: both_step_cases)
qed

lemma date_range_nth:
  "i < length (date_range a b f) \<Longrightarrow> date_range a b f ! i = a + int i * f"
  by (auto simp: date_range_def simp del: upt_Suc split: if_splits)

lemma window_rows_disjoint:
  assumes "r \<in> set (window_rows data (a + int i * minutes 15))"
    and "r \<in> set (window_rows data (a + int j * minutes 15))"
  shows "i = j"
proof (rule ccontr)
  assume ne: "i \<noteq> j"
  from assms have b: "a + int i * minutes 15 \<le> time r" "time r < a + int i * minutes 15 + minutes 15"
    "a + int j * minutes 15 \<le> time r" "time r < a + int j * minutes 15 + minutes 15"
    by (auto simp: window_rows_def)
  from ne consider "i < j" | "j < i" by linarith
  then show False
  proof cases
    case 1
    then have "int i + 1 \<le> int j" by simp
    then have "(int i + 1) * minutes 15 \<le> int j * minutes 15"
      by (intro mult_right_mono) (simp_all add: minutes_def)
    with b show False by (simp add: algebra_simps)
  next
    case 2
    then have "int j + 1 \<le> int i" by simp
    then have "(int j + 1) * minutes 15 \<le> int i * minutes 15"
      by (intro mult_right_mono) (simp_all add: minutes_def)
    with b show False by (simp add: algebra_simps)
  qed
qed

text \<open>
  C1 (as amended).  On a non-empty table, among the 15-minute windows that the loop
  enumerates (from the earliest timestamp, every 15 minutes, up to 15 minutes before the
  latest timestamp) the first pass removes exactly those whose start lies strictly
  between the in-bed and the out-of-bed time of no sleep interval, that hold at least two
  samples, and in which both devices read zero on all samples but the last; the rows of
  every other enumerated window are retained, window after window, and the first
  timestamp of every removed window is recorded as a non-wear start.  The enumerated
  windows do not overlap: no row lies in two of them.
\<close>

theorem remove_both_non_wearing_windows:
  "data \<noteq> [] \<Longrightarrow>
     (\<exists>pct. remove_both_non_wearing data sleep = Inr (pct,
        \<lparr>rm_data = concat (map (window_rows data)
            (filter (\<lambda>ws. \<not> removed_window data sleep ws) (window_starts data))),
         nonwear_start = map (\<lambda>ws. time (hd (window_rows data ws)))
            (filter (removed_window data sleep) (window_starts data))\<rparr>))
     \<and> (\<forall>i < length (window_starts data). \<forall>j < length (window_starts data).
           (\<exists>r. r \<in> set (window_rows data (window_starts data ! i))
                \<and> r \<in> set (window_rows data (window_starts data ! j))) \<longrightarrow> i = j)"
proof (intro conjI allI impI)
  assume "data \<noteq> []"
  then show "\<exists>pct. remove_both_non_wearing data sleep = Inr (pct,
        \<lparr>rm_data = concat (map (window_rows data)
            (filter (\<lambda>ws. \<not> removed_window data sleep ws) (window_starts data))),
         nonwear_start = map (\<lambda>ws. time (hd (window_rows data ws)))
            (filter (removed_window data sleep) (window_starts data))\<rparr>)"
    by (simp add: remove_both_non_wearing_def Let_def foldl_both_step)
next
  fix i j
  assume i: "i < length (window_starts data)" and j: "j < length (window_starts data)"
    and ex: "\<exists>r. r \<in> set (window_rows data (window_starts data ! i))
                \<and> r \<in> set (window_rows data (window_starts data ! j))"
  from i j show "i = j"
    using ex window_rows_disjoint [of _ data _ i j]
    unfolding window_starts_def by (auto simp: date_range_nth)
qed

theorem remove_both_non_wearing_windows_witness:
  "(\<exists>pct. remove_both_non_wearing
     [\<lparr>time = 0, Acti = 0, Watch = 0, diff = 0, average = 0\<rparr>,
      \<lparr>time = 300000000000, Acti = 0, Watch = 0, diff = 0, average = 0\<rparr>,
      \<lparr>time = 600000000000, Acti = 10, Watch = 30, diff = 20, average = 20\<rparr>,
      \<lparr>time = 900000000000, Acti = 40, Watch = 60, diff = 20, average = 50\<rparr>,
      \<lparr>time = 1800000000000, Acti = 0, Watch = 0, diff = 0, average = 0\<rparr>] []
   = Inr (pct,
      \<lparr>rm_data = [\<lparr>time = 900000000000, Acti = 40, Watch = 60, diff = 20, average = 50\<rparr>],
       nonwear_start = [0]\<rparr>))
   \<and> (\<exists>pct. remove_both_non_wearing
     [\<lparr>time = 0, Acti = 0, Watch = 0, diff = 0, average = 0\<rparr>,
      \<lparr>time = 300000000000, Acti = 0, Watch = 0, diff = 0, average = 0\<rparr>,
      \<lparr>time = 600000000000, Acti = 10, Watch = 30, diff = 20, average = 20\<rparr>,
      \<lparr>time = 900000000000, Acti = 40, Watch = 60, diff = 20, average = 50\<rparr>,
      \<lparr>time = 1800000000000, Acti = 0, Watch = 0, diff = 0, average = 0\<rparr>]
     [(- 60000000000, 600000000000)]
   = Inr (pct,
      \<lparr>rm_data = [\<lparr>time = 0, Acti = 0, Watch = 0, diff = 0, average = 0\<rparr>,
         \<lparr>time = 300000000000, Acti = 0, Watch = 0, diff = 0, average = 0\<rparr>,
         \<lparr>time = 600000000000, Acti = 10, Watch = 30, diff = 20, average = 20\<rparr>,
         \<lparr>time = 900000000000, Acti = 40, Watch = 60, diff = 20, average = 50\<rparr>],
       nonwear_start = []\<rparr>))"
proof -
  let ?D = "[\<lparr>time = 0, Acti = 0, Watch = 0, diff = 0, average = 0\<rparr>,
      \<lparr>time = 300000000000, Acti = 0, Watch = 0, diff = 0, average = 0\<rparr>,
      \<lparr>time = 600000000000, Acti = 10, Watch = 30, diff = 20, average = 20\<rparr>,
      \<lparr>time = 900000000000, Acti = 40, Watch = 60, diff = 20, average = 50\<rparr>,
      \<lparr>time = 1800000000000, Acti = 0, Watch = 0, diff = 0, average = 0\<rparr>]"
  let ?S = "[(- 60000000000, 600000000000)] :: (timestamp \<times> timestamp) list"
  have ne: "?D \<noteq> []" by simp
  have ws: "window_starts ?D = [0, 900000000000]"
    by (simp add: window_starts_def date_range_def minutes_def)
  have w0: "window_rows ?D 0 = take 3 ?D"
    by (simp add: window_rows_def minutes_def)
  have w1: "window_rows ?D 900000000000 = [?D ! 3]"
    by (simp add: window_rows_def minutes_def)
  have n0: "removed_window ?D [] 0"
    unfolding removed_window_def w0 by simp
  have n1: "\<not> removed_window ?D sl 900000000000" for sl
    unfolding removed_window_def w1 by simp
  have s0: "\<not> removed_window ?D ?S 0"
    unfolding removed_window_def by simp
  have "\<exists>pct. remove_both_non_wearing ?D [] = Inr (pct,
        \<lparr>rm_data = concat (map (window_rows ?D)
            (filter (\<lambda>ws. \<not> removed_window ?D [] ws) (window_starts ?D))),
         nonwear_start = map (\<lambda>ws. time (hd (window_rows ?D ws)))
            (filter (removed_window ?D []) (window_starts ?D))\<rparr>)"
    by (rule conjunct1 [OF remove_both_non_wearing_windows [OF ne]])
  then have a: "\<exists>pct. remove_both_non_wearing ?D [] = Inr (pct,
        \<lparr>rm_data = [?D ! 3], nonwear_start = [0]\<rparr>)"
    unfolding ws by (simp add: n0 n1 w0 w1)
  have "\<exists>pct. remove_both_non_wearing ?D ?S = Inr (pct,
        \<lparr>rm_data = concat (map (window_rows ?D)
            (filter (\<lambda>ws. \<not> removed_window ?D ?S ws) (window_starts ?D))),
         nonwear_start = map (\<lambda>ws. time (hd (window_rows ?D ws)))
            (filter (removed_window ?D ?S) (window_starts ?D))\<rparr>)"
    by (rule conjunct1 [OF remove_both_non_wearing_windows [OF ne]])
  then have b: "\<exists>pct. remove_both_non_wearing ?D ?S = Inr (pct,
        \<lparr>rm_data = take 3 ?D @ [?D ! 3], nonwear_start = []\<rparr>)"
    unfolding ws by (simp add: s0 n1 w0 w1)
  from a b show ?thesis by simp
qed

text \<open>
  The claim as stated fails in two ways.  A window that starts exactly at an in-bed time
  starts inside that sleep interval in the spec's sense and is no non-wear window, yet it
  is removed.  And of two non-zero rows 20 minutes apart, neither of which lies in a
  non-wear window, only the first is retained.
\<close>

theorem remove_both_non_wearing_counterexample:
  "\<not> spec_non_wear_window
     [\<lparr>time = 0, Acti = 0, Watch = 0, diff = 0, average = 0\<rparr>,
      \<lparr>time = 300000000000, Acti = 0, Watch = 0, diff = 0, average = 0\<rparr>,
      \<lparr>time = 600000000000, Acti = 10, Watch = 30, diff = 20, average = 20\<rparr>,
      \<lparr>time = 900000000000, Acti = 40, Watch = 60, diff = 20, average = 50\<rparr>,
      \<lparr>time = 1800000000000, Acti = 0, Watch = 0, diff = 0, average = 0\<rparr>]
     [(0, 28800000000000)] 0
   \<and> remove_both_non_wearing
     [\<lparr>time = 0, Acti = 0, Watch = 0, diff = 0, average = 0\<rparr>,
      \<lparr>time = 300000000000, Acti = 0, Watch = 0, diff = 0, average = 0\<rparr>,
      \<lparr>time = 600000000000, Acti = 10, Watch = 30, diff = 20, average = 20\<rparr>,
      \<lparr>time = 900000000000, Acti = 40, Watch = 60, diff = 20, average = 50\<rparr>,
      \<lparr>time = 1800000000000, Acti = 0, Watch = 0, diff = 0, average = 0\<rparr>]
     [(0, 28800000000000)]
     = Inr (80,
       \<lparr>rm_data = [\<lparr>time = 900000000000, Acti = 40, Watch = 60, diff = 20, average = 50\<rparr>],
        nonwear_start = [0]\<rparr>)
   \<and> \<not> spec_non_wear_window
     [\<lparr>time = 0, Acti = 40, Watch = 60, diff = 20, average = 50\<rparr>,
      \<lparr>time = 1200000000000, Acti = 50, Watch = 70, diff = 20, average = 60\<rparr>] [] 0
   \<and> \<not> spec_non_wear_window
     [\<lparr>time = 0, Acti = 40, Watch = 60, diff = 20, average = 50\<rparr>,
      \<lparr>time = 1200000000000, Acti = 50, Watch = 70, diff = 20, average = 60\<rparr>] []
     900000000000
   \<and> remove_both_non_wearing
     [\<lparr>time = 0, Acti = 40, Watch = 60, diff = 20, average = 50\<rparr>,
      \<lparr>time = 1200000000000, Acti = 50, Watch = 70, diff = 20, average = 60\<rparr>] []
     = Inr (50,
       \<lparr>rm_data = [\<lparr>time = 0, Acti = 40, Watch = 60, diff = 20, average = 50\<rparr>],
        nonwear_start = []\<rparr>)"
proof -
  let ?D = "[\<lparr>time = 0, Acti = 0, Watch = 0, diff = 0, average = 0\<rparr>,
      \<lparr>time = 300000000000, Acti = 0, Watch = 0, diff = 0, average = 0\<rparr>,
      \<lparr>time = 600000000000, Acti = 10, Watch = 30, diff = 20, average = 20\<rparr>,
      \<lparr>time = 900000000000, Acti = 40, Watch = 60, diff = 20, average = 50\<rparr>,
      \<lparr>time = 1800000000000, Acti = 0, Watch = 0, diff = 0, average = 0\<rparr>]"
  let ?S = "[(0, 28800000000000)] :: (timestamp \<times> timestamp) list"
  let ?E = "[\<lparr>time = 0, Acti = 40, Watch = 60, diff = 20, average = 50\<rparr>,
      \<lparr>time = 1200000000000, Acti = 50, Watch = 70, diff = 20, average = 60\<rparr>]"
  have ws: "window_starts ?D = [0, 900000000000]"
    by (simp add: window_starts_def date_range_def minutes_def)
  have w0: "window_rows ?D 0 = take 3 ?D"
    by (simp add: window_rows_def minutes_def)
  have w1: "window_rows ?D 900000000000 = [?D ! 3]"
    by (simp add: window_rows_def minutes_def)
  have r0: "removed_window ?D ?S 0"
    unfolding removed_window_def w0 by simp
  have r1: "\<not> removed_window ?D ?S 900000000000"
    unfolding removed_window_def w1 by simp
  have a: "\<not> spec_non_wear_window ?D ?S 0"
    unfolding spec_non_wear_window_def by simp
  have b: "remove_both_non_wearing ?D ?S
      = Inr (80, \<lparr>rm_data = [?D ! 3], nonwear_start = [0]\<rparr>)"
    unfolding remove_both_non_wearing_def Let_def foldl_both_step ws
    by (simp add: r0 r1 w0 w1)
  have es: "window_starts ?E = [0]"
    by (simp add: window_starts_def date_range_def minutes_def)
  have e0: "window_rows ?E 0 = [?E ! 0]"
    by (simp add: window_rows_def minutes_def)
  have e1: "window_rows ?E 900000000000 = [?E ! 1]"
    by (simp add: window_rows_def minutes_def)
  have q0: "\<not> removed_window ?E [] 0"
    unfolding removed_window_def e0 by simp
  have c: "\<not> spec_non_wear_window ?E [] 0"
    unfolding spec_non_wear_window_def e0 by simp
  have d: "\<not> spec_non_wear_window ?E [] 900000000000"
    unfolding spec_non_wear_window_def e1 by simp
  have e: "remove_both_non_wearing ?E []
      = Inr (50, \<lparr>rm_data = [?E ! 0], nonwear_start = []\<rparr>)"
    unfolding remove_both_non_wearing_def Let_def foldl_both_step es
    by (simp add: q0 e0)
  from a b c d e show ?thesis by simp
qed

text \<open>
  Rows that lie in no enumerated window are not in the output.  The last window ends no
  later than the latest timestamp, so a row that carries the latest timestamp is never
  retained.
\<close>

lemma date_range_upper:
  assumes "ws \<in> set (date_range a b f)" and "0 < f"
  shows "ws \<le> b"
proof -
  from assms(1) obtain k where k: "k < nat ((b - a) div f) + 1" "ws = a + int k * f" and ab: "a \<le> b"
    by (auto simp: date_range_def simp del: upt_Suc split: if_splits)
  have "0 \<le> (b - a) div f" using ab assms(2) by (simp add: pos_imp_zdiv_nonneg_iff)
  with k(1) have "int k \<le> (b - a) div f" by linarith
  then have "int k * f \<le> (b - a) div f * f"
    using assms(2) by (intro mult_right_mono) simp_all
  also have "\<dots> \<le> b - a"
    using assms(2) by (metis div_mult_mod_eq le_add_same_cancel1 pos_mod_sign)
  finally show ?thesis using k(2) by simp
qed

lemma remove_both_non_wearing_drops_latest:
  assumes "remove_both_non_wearing data sleep = Inr (pct, s)"
    and "r \<in> set data" and "time r = Max (set (map time data))"
  shows "r \<notin> set (rm_data s)"
proof
  assume in_rm: "r \<in> set (rm_data s)"
  have ne: "data \<noteq> []" using assms(2) by auto
  have "s = foldl (both_step data sleep) \<lparr>rm_data = [], nonwear_start = []\<rparr> (window_starts data)"
    using assms(1) ne by (simp add: remove_both_non_wearing_def Let_def)
  then have "rm_data s = concat (map (window_rows data)
      (filter (\<lambda>ws. \<not> removed_window data sleep ws) (window_starts data)))"
    by (simp add: foldl_both_step)
  with in_rm obtain ws where ws: "ws \<in> set (window_starts data)" "r \<in> set (window_rows data ws)"
    by auto
  have "ws \<le> Max (set (map time data)) - minutes 15"
    using ws(1) unfolding window_starts_def
    by (rule date_range_upper) (simp add: minutes_def)
  moreover have "time r < ws + minutes 15"
    using ws(2) by (simp add: window_rows_def)
  ultimately show False using assms(3) by simp
qed
section \<open>Properties of the ChargingDetector\<close>

subsection \<open>State-transition pass\<close>

lemma length_loc_map2:
  assumes "length A = length B" and "length B = length col"
  shows "length (loc (map2 F A B) col) = length (filter (\<lambda>(x, y). F x y) (zip A B))"
proof -
  have "length msk = length col \<Longrightarrow> length (loc msk col) = length (filter id msk)"
    for msk :: "bool list"
    unfolding loc_def by (induction msk col rule: list_induct2) auto
  from this [of "map2 F A B"] assms show ?thesis
    by (simp add: filter_map comp_def)
qed

lemma count_rises_Cons:
  "xs \<noteq> [] \<Longrightarrow> count_rises (a # xs)
     = (if isin a [1, 2] \<and> isin (hd xs) [3, 4, 5, 6] then 1 else 0) + count_rises xs"
  by (cases xs) simp_all

lemma count_falls_Cons:
  "xs \<noteq> [] \<Longrightarrow> count_falls (a # xs)
     = (if isin (hd xs) [1, 2] \<and> isin a [3, 4, 5, 6] then 1 else 0) + count_falls xs"
  by (cases xs) simp_all

lemma rises_shift:
  "xs \<noteq> [] \<Longrightarrow>
     length (filter (\<lambda>(prev, cur). isin prev [1, 2] \<and> isin cur [3, 4, 5, 6])
        (zip (p # butlast xs) xs))
     = (if isin p [1, 2] \<and> isin (hd xs) [3, 4, 5, 6] then 1 else 0) + count_rises xs"
proof (induction xs arbitrary: p)
  case Nil
  then show ?case by simp
next
  case (Cons a xs)
  let ?P = "\<lambda>(prev, cur). isin prev [1, 2] \<and> isin cur [3, 4, 5, 6]"
  show ?case
  proof (cases "xs = []")
    case True
    then show ?thesis by simp
  next
    case False
    define X where "X = length (filter ?P (zip (a # butlast xs) xs))"
    have ih: "X = (if isin a [1, 2] \<and> isin (hd xs) [3, 4, 5, 6] then 1 else 0) + count_rises xs"
      unfolding X_def by (rule Cons.IH [OF False])
    have z: "zip (p # butlast (a # xs)) (a # xs) = (p, a) # zip (a # butlast xs) xs"
      using False by simp
    have "length (filter ?P (zip (p # butlast (a # xs)) (a # xs)))
        = (if isin p [1, 2] \<and> isin a [3, 4, 5, 6] then 1 else 0) + X"
      unfolding z X_def by simp
    then show ?thesis
      unfolding ih count_rises_Cons [OF False] by simp
  qed
qed

lemma falls_shift:
  "xs \<noteq> [] \<Longrightarrow>
     length (filter (\<lambda>(nxt, cur). isin nxt [1, 2] \<and> isin cur [3, 4, 5, 6])
        (zip (tl xs @ [None]) xs))
     = count_falls xs"
proof (induction xs)
  case Nil
  then show ?case by simp
next
  case (Cons a xs)
  let ?P = "\<lambda>(nxt, cur). isin nxt [1, 2] \<and> isin cur [3, 4, 5, 6]"
  show ?case
  proof (cases "xs = []")
    case True
    then show ?thesis by (simp add: isin_def)
  next
    case False
    define X where "X = length (filter ?P (zip (tl xs @ [None]) xs))"
    have ih: "X = count_falls xs"
      unfolding X_def by (rule Cons.IH [OF False])
    have z: "zip (tl (a # xs) @ [None]) (a # xs) = (hd xs, a) # zip (tl xs @ [None]) xs"
      using False by (cases xs) simp_all
    have "length (filter ?P (zip (tl (a # xs) @ [None]) (a # xs)))
        = (if isin (hd xs) [1, 2] \<and> isin a [3, 4, 5, 6] then 1 else 0) + X"
      unfolding z X_def by simp
    then show ?thesis
      unfolding ih count_falls_Cons [OF False] by simp
  qed
qed

lemma length_detected_starts:
  "length (detected_starts df_battery) = count_rises (map state df_battery)"
proof (cases "df_battery = []")
  case True
  then show ?thesis by (simp add: detected_starts_def loc_def increase_mask_def shift_1_def)
next
  case False
  then have ne: "map state df_battery \<noteq> []" by simp
  have l1: "length (None # butlast (map state df_battery)) = length (map state df_battery)"
    using False by simp
  have l2: "length (map state df_battery) = length (map b_time df_battery)" by simp
  have "length (detected_starts df_battery)
      = length (loc (map2 (\<lambda>prev cur. isin prev [1, 2] \<and> isin cur [3, 4, 5, 6])
           (None # butlast (map state df_battery)) (map state df_battery)) (map b_time df_battery))"
    using ne by (simp add: detected_starts_def increase_mask_def shift_1_def)
  also have "\<dots> = length (filter (\<lambda>(prev, cur). isin prev [1, 2] \<and> isin cur [3, 4, 5, 6])
        (zip (None # butlast (map state df_battery)) (map state df_battery)))"
    by (rule length_loc_map2 [OF l1 l2])
  also have "\<dots> = count_rises (map state df_battery)"
    unfolding rises_shift [OF ne, of None] by (simp add: isin_def)
  finally show ?thesis .
qed

lemma length_detected_ends:
  "length (detected_ends df_battery) = count_falls (map state df_battery)"
proof (cases "df_battery = []")
  case True
  then show ?thesis by (simp add: detected_ends_def loc_def decrease_mask_def shift_m1_def)
next
  case False
  then have ne: "map state df_battery \<noteq> []" by simp
  have l1: "length (tl (map state df_battery) @ [None]) = length (map state df_battery)"
    using False by simp
  have l2: "length (map state df_battery) = length (map b_time df_battery)" by simp
  have "length (detected_ends df_battery)
      = length (loc (map2 (\<lambda>nxt cur. isin nxt [1, 2] \<and> isin cur [3, 4, 5, 6])
           (tl (map state df_battery) @ [None]) (map state df_battery)) (map b_time df_battery))"
    using ne by (simp add: detected_ends_def decrease_mask_def shift_m1_def)
  also have "\<dots> = length (filter (\<lambda>(nxt, cur). isin nxt [1, 2] \<and> isin cur [3, 4, 5, 6])
        (zip (tl (map state df_battery) @ [None]) (map state df_battery)))"
    by (rule length_loc_map2 [OF l1 l2])
  also have "\<dots> = count_falls (map state df_battery)"
    by (rule falls_shift [OF ne])
  finally show ?thesis .
qed

text \<open>
  When every code is one of 1 to 6 the series alternates between not-charging and
  charging stretches, so the two counts differ by at most one.
\<close>

lemma rises_falls_alternate:
  assumes "\<forall>s \<in> set xs. isin s [1, 2] \<or> isin s [3, 4, 5, 6]"
  shows "xs = [] \<or>
         (if isin (hd xs) [3, 4, 5, 6]
          then count_rises xs \<le> count_falls xs \<and> count_falls xs \<le> count_rises xs + 1
          else count_falls xs \<le> count_rises xs \<and> count_rises xs \<le> count_falls xs + 1)"
  using assms
proof (induction xs rule: count_rises.induct)
  case (1 a b r)
  have excl: "\<not> (isin s [1, 2] \<and> isin s [3, 4, 5, 6])" for s
    by (auto simp: isin_def split: option.splits)
  have ab: "isin a [1, 2] \<or> isin a [3, 4, 5, 6]" "isin b [1, 2] \<or> isin b [3, 4, 5, 6]"
    using "1.prems" by simp_all
  have "\<forall>s \<in> set (b # r). isin s [1, 2] \<or> isin s [3, 4, 5, 6]"
    using "1.prems" by simp
  from "1.IH" [OF this] ab excl [of a] excl [of b] show ?case
    by (auto split: if_splits)
qed auto

lemma codes_1_to_6:
  "isin s [1, 2, 3, 4, 5, 6] \<longleftrightarrow> isin s [1, 2] \<or> isin s [3, 4, 5, 6]"
  by (auto simp: isin_def split: option.splits)

lemma counts_differ_by_one:
  assumes "\<forall>r \<in> set df_battery. isin (state r) [1, 2, 3, 4, 5, 6]"
  shows "length (detected_starts df_battery) \<le> length (detected_ends df_battery) + 1
       \<and> length (detected_ends df_battery) \<le> length (detected_starts df_battery) + 1"
proof -
  have "\<forall>s \<in> set (map state df_battery). isin s [1, 2] \<or> isin s [3, 4, 5, 6]"
    using assms by (simp add: codes_1_to_6)
  from rises_falls_alternate [OF this] show ?thesis
    unfolding length_detected_starts length_detected_ends
    by (cases "map state df_battery = []") (auto split: if_splits)
qed

lemma find_charging_time_cases:
  assumes "battery_frame files start_time end_time = Some df_battery"
  shows "find_charging_time files start_time end_time =
     (if length (detected_starts df_battery) < length (detected_ends df_battery)
      then Inr (df_battery, detected_starts df_battery, tl (detected_ends df_battery))
      else if length (detected_starts df_battery) = length (detected_ends df_battery)
      then Inr (df_battery, detected_starts df_battery, detected_ends df_battery)
      else if length (detected_starts df_battery) = length (detected_ends df_battery) + 1
      then Inr (df_battery, butlast (detected_starts df_battery), detected_ends df_battery)
      else Inl KeyError)"
  using assms by (auto simp: find_charging_time_def reconcile_def)

text \<open>
  C3 (as amended).  Let \<open>df_battery\<close> be the battery table that \<open>find_charging_time\<close>
  builds from the files of the study period.  The function deletes the earliest
  charge-end when the ends outnumber the starts, and deletes the latest charge-start
  when the starts outnumber the ends by exactly one.  Whenever the two detected counts
  differ by exactly one, the two returned lists have equal length; this is always so
  when every state code is one of 1 to 6, since the counts then differ by at most one.
\<close>

theorem find_charging_time_reconciles:
  "battery_frame files start_time end_time = Some df_battery \<Longrightarrow>
     (length (detected_starts df_battery) < length (detected_ends df_battery) \<longrightarrow>
        find_charging_time files start_time end_time
          = Inr (df_battery, detected_starts df_battery, tl (detected_ends df_battery)))
     \<and> (length (detected_starts df_battery) = length (detected_ends df_battery) + 1 \<longrightarrow>
        find_charging_time files start_time end_time
          = Inr (df_battery, butlast (detected_starts df_battery), detected_ends df_battery))
     \<and> (length (detected_starts df_battery) = length (detected_ends df_battery) + 1
          \<or> length (detected_ends df_battery) = length (detected_starts df_battery) + 1 \<longrightarrow>
        (\<exists>S E. find_charging_time files start_time end_time = Inr (df_battery, S, E)
               \<and> length S = length E))
     \<and> ((\<forall>r \<in> set df_battery. isin (state r) [1, 2, 3, 4, 5, 6]) \<longrightarrow>
          length (detected_starts df_battery) \<le> length (detected_ends df_battery) + 1
          \<and> length (detected_ends df_battery) \<le> length (detected_starts df_battery) + 1
          \<and> (\<exists>S E. find_charging_time files start_time end_time = Inr (df_battery, S, E)
                 \<and> length S = length E))"
proof (intro conjI impI)
  assume fr: "battery_frame files start_time end_time = Some df_battery"
  note c = find_charging_time_cases [OF fr]
  show "find_charging_time files start_time end_time
          = Inr (df_battery, detected_starts df_battery, tl (detected_ends df_battery))"
    if "length (detected_starts df_battery) < length (detected_ends df_battery)"
    using that c by simp
  show "find_charging_time files start_time end_time
          = Inr (df_battery, butlast (detected_starts df_battery), detected_ends df_battery)"
    if "length (detected_starts df_battery) = length (detected_ends df_battery) + 1"
    using that c by simp
  show "\<exists>S E. find_charging_time files start_time end_time = Inr (df_battery, S, E)
          \<and> length S = length E"
    if "length (detected_starts df_battery) = length (detected_ends df_battery) + 1
          \<or> length (detected_ends df_battery) = length (detected_starts df_battery) + 1"
    using that c by auto
  assume codes: "\<forall>r \<in> set df_battery. isin (state r) [1, 2, 3, 4, 5, 6]"
  note d = counts_differ_by_one [OF codes]
  from d show "length (detected_starts df_battery) \<le> length (detected_ends df_battery) + 1"
    by simp
  from d show "length (detected_ends df_battery) \<le> length (detected_starts df_battery) + 1"
    by simp
  from d c show "\<exists>S E. find_charging_time files start_time end_time = Inr (df_battery, S, E)
      \<and> length S = length E"
    by (auto split: if_splits)
qed

theorem find_charging_time_reconciles_witness:
  "find_charging_time
     [(0, Some [\<lparr>b_time = 0, state = Some 3, level = 50\<rparr>,
                \<lparr>b_time = 600000000000, state = Some 1, level = 60\<rparr>,
                \<lparr>b_time = 1200000000000, state = Some 2, level = 59\<rparr>]),
      (3600000000000, None),
      (7200000000000, Some [\<lparr>b_time = 7200000000000, state = Some 4, level = 58\<rparr>,
                \<lparr>b_time = 7800000000000, state = Some 1, level = 70\<rparr>])]
     0 10800000000000
   = Inr ([\<lparr>b_time = 0, state = Some 3, level = 50\<rparr>,
           \<lparr>b_time = 600000000000, state = Some 1, level = 60\<rparr>,
           \<lparr>b_time = 1200000000000, state = Some 2, level = 59\<rparr>,
           \<lparr>b_time = 7200000000000, state = Some 4, level = 58\<rparr>,
           \<lparr>b_time = 7800000000000, state = Some 1, level = 70\<rparr>],
          [7080000000000], [7320000000000])"
proof -
  let ?files = "[(0, Some [\<lparr>b_time = 0, state = Some 3, level = 50\<rparr>,
                \<lparr>b_time = 600000000000, state = Some 1, level = 60\<rparr>,
                \<lparr>b_time = 1200000000000, state = Some 2, level = 59\<rparr>]),
      (3600000000000, None),
      (7200000000000, Some [\<lparr>b_time = 7200000000000, state = Some 4, level = 58\<rparr>,
                \<lparr>b_time = 7800000000000, state = Some 1, level = 70\<rparr>])]"
  let ?df = "[\<lparr>b_time = 0, state = Some 3, level = 50\<rparr>,
      \<lparr>b_time = 600000000000, state = Some 1, level = 60\<rparr>,
      \<lparr>b_time = 1200000000000, state = Some 2, level = 59\<rparr>,
      \<lparr>b_time = 7200000000000, state = Some 4, level = 58\<rparr>,
      \<lparr>b_time = 7800000000000, state = Some 1, level = 70\<rparr>]"
  have fr: "battery_frame ?files 0 10800000000000 = Some ?df"
    by (simp add: battery_frame_def List.map_filter_def)
  have s: "detected_starts ?df = [7080000000000]"
    by (simp add: detected_starts_def increase_mask_def shift_1_def loc_def isin_def minutes_def)
  have e: "detected_ends ?df = [120000000000, 7320000000000]"
    by (simp add: detected_ends_def decrease_mask_def shift_m1_def loc_def isin_def minutes_def)
  from find_charging_time_reconciles [OF fr] show ?thesis
    unfolding s e by simp
qed

text \<open>
  The claim as stated fails when the counts differ by more than one.  In the series
  below the watch is charging at the first sample, a row with an unreadable state field
  hides the next plug-in, and two charge-ends are detected but no charge-start; one end
  is deleted and the returned lists have lengths 0 and 1.
\<close>

theorem find_charging_time_unequal_counterexample:
  "length (detected_starts
     [\<lparr>b_time = 0, state = Some 3, level = 50\<rparr>,
      \<lparr>b_time = 600000000000, state = Some 1, level = 60\<rparr>,
      \<lparr>b_time = 1200000000000, state = None, level = 59\<rparr>,
      \<lparr>b_time = 1800000000000, state = Some 4, level = 58\<rparr>,
      \<lparr>b_time = 2400000000000, state = Some 1, level = 70\<rparr>])
   \<noteq> length (detected_ends
     [\<lparr>b_time = 0, state = Some 3, level = 50\<rparr>,
      \<lparr>b_time = 600000000000, state = Some 1, level = 60\<rparr>,
      \<lparr>b_time = 1200000000000, state = None, level = 59\<rparr>,
      \<lparr>b_time = 1800000000000, state = Some 4, level = 58\<rparr>,
      \<lparr>b_time = 2400000000000, state = Some 1, level = 70\<rparr>])
   \<and> find_charging_time
     [(0, Some [\<lparr>b_time = 0, state = Some 3, level = 50\<rparr>,
      \<lparr>b_time = 600000000000, state = Some 1, level = 60\<rparr>,
      \<lparr>b_time = 1200000000000, state = None, level = 59\<rparr>,
      \<lparr>b_time = 1800000000000, state = Some 4, level = 58\<rparr>,
      \<lparr>b_time = 2400000000000, state = Some 1, level = 70\<rparr>])] 0 3600000000000
     = Inr ([\<lparr>b_time = 0, state = Some 3, level = 50\<rparr>,
      \<lparr>b_time = 600000000000, state = Some 1, level = 60\<rparr>,
      \<lparr>b_time = 1200000000000, state = None, level = 59\<rparr>,
      \<lparr>b_time = 1800000000000, state = Some 4, level = 58\<rparr>,
      \<lparr>b_time = 2400000000000, state = Some 1, level = 70\<rparr>], [], [1920000000000])
   \<and> length ([] :: timestamp list) \<noteq> length [1920000000000 :: timestamp]"
  by (simp add: find_charging_time_def battery_frame_def List.map_filter_def reconcile_def
      detected_starts_def detected_ends_def increase_mask_def decrease_mask_def shift_1_def
      shift_m1_def loc_def isin_def minutes_def)

subsection \<open>Level-trend pass\<close>

text \<open>
  What the first loop tests: some level difference in the first half of the window is
  exactly zero, and the differences of the second half sum to more than the threshold.
\<close>

lemma start_test_zero_step:
  "start_test current_window \<longleftrightarrow>
     Some 0 \<in> set (take half_window (series_diff (map level current_window)))
     \<and> series_sum (drop half_window (series_diff (map level current_window))) > increase_thres"
  unfolding start_test_def series_all_def Let_def
  by (auto simp: list_all_iff split: option.splits)

text \<open>
  C4.  The first loop of \<open>charging_timev2\<close> does not test what the claim says.  On a
  41-sample series whose level falls by one at each of the first 19 steps and then rises
  by 20 over the second half of the first window, the window is a charge-start window in
  the claim's sense, yet no charge start is recorded.  On a 41-sample series whose level
  rises throughout, with every other step flat, the first window is not a charge-start
  window in the claim's sense, yet the loop records its first timestamp minus five
  minutes.
\<close>

theorem charging_timev2_start_test_differs:
  "spec_start_window (take window_size
      (map (\<lambda>k. \<lparr>b_time = int k * 10000000000, state = Some 3,
                  level = (if k < 20 then 60 - int k else 22 + int k)\<rparr>) [0..<41]))
   \<and> snd (charging_timev2
      (map (\<lambda>k. \<lparr>b_time = int k * 10000000000, state = Some 3,
                  level = (if k < 20 then 60 - int k else 22 + int k)\<rparr>) [0..<41])
      0 410000000000) = [410000000000]
   \<and> \<not> spec_start_window (take window_size
      (map (\<lambda>k. \<lparr>b_time = int k * 10000000000, state = Some 3,
                  level = 30 + int (k div 2)\<rparr>) [0..<41]))
   \<and> snd (charging_timev2
      (map (\<lambda>k. \<lparr>b_time = int k * 10000000000, state = Some 3,
                  level = 30 + int (k div 2)\<rparr>) [0..<41])
      0 410000000000) = [- 300000000000, 410000000000]"
  by code_simp

section \<open>Properties of the FileGapDetector\<close>

subsection \<open>Runs of missing hours\<close>

lemma spec_runs_not_Nil: "spec_runs (t # ts) \<noteq> []"
  by (induction ts arbitrary: t) (auto split: list.splits)

lemma concat_spec_runs: "concat (spec_runs ts) = ts"
  by (induction ts rule: spec_runs.induct) (auto split: list.splits)

lemma spec_runs_nonempty: "r \<in> set (spec_runs ts) \<Longrightarrow> r \<noteq> []"
  by (induction ts arbitrary: r rule: spec_runs.induct) (auto split: list.splits if_splits)

lemma hd_hd_spec_runs: "hd (hd (spec_runs (t # ts))) = t"
  by (cases ts) (auto split: list.splits)

lemma spec_runs_close: "r \<in> set (spec_runs ts) \<Longrightarrow> close_steps r"
proof (induction ts arbitrary: r rule: spec_runs.induct)
  case (3 t u ts)
  show ?case
  proof (cases "u - t \<le> hours 1")
    case True
    obtain q qs where q: "spec_runs (u # ts) = q # qs"
      using spec_runs_not_Nil [of u ts] by (cases "spec_runs (u # ts)") auto
    have hq: "hd q = u" using hd_hd_spec_runs [of u ts] q by simp
    have qne: "q \<noteq> []" using spec_runs_nonempty [of q "u # ts"] q by simp
    from "3.prems" True q have "r = t # q \<or> r \<in> set qs" by auto
    then show ?thesis
    proof
      assume "r = t # q"
      moreover have "close_steps q" using "3.IH"(1) [OF True, of q] q by simp
      ultimately show ?thesis using True hq qne by (cases q) auto
    next
      assume "r \<in> set qs"
      then show ?thesis using "3.IH"(1) [OF True, of r] q by simp
    qed
  next
    case False
    with "3.prems" have "r = [t] \<or> r \<in> set (spec_runs (u # ts))" by auto
    then show ?thesis using "3.IH"(2) [OF False, of r] by auto
  qed
qed auto

lemma spec_runs_far: "far_apart (spec_runs ts)"
proof (induction ts rule: spec_runs.induct)
  case (3 t u ts)
  obtain q qs where q: "spec_runs (u # ts) = q # qs"
    using spec_runs_not_Nil [of u ts] by (cases "spec_runs (u # ts)") auto
  have hq: "hd q = u" using hd_hd_spec_runs [of u ts] q by simp
  have qne: "q \<noteq> []" using spec_runs_nonempty [of q "u # ts"] q by simp
  show ?case
  proof (cases "u - t \<le> hours 1")
    case True
    have "far_apart (q # qs)" using "3.IH"(1) [OF True] q by simp
    moreover have "last (t # q) = last q" using qne by simp
    ultimately have "far_apart ((t # q) # qs)" by (cases qs) auto
    then show ?thesis using True q by simp
  next
    case False
    have "far_apart (q # qs)" using "3.IH"(2) [OF False] q by simp
    then show ?thesis using False q hq by simp
  qed
qed auto
subsection \<open>The loop of \<open>files_to_time\<close>\<close>

lemma files_loop_running:
  assumes "\<forall>f \<in> set files. strptime (strftime (strptime (strip_csv f))) = strptime (strip_csv f)
             \<and> strftime (strptime (strip_csv f)) \<noteq> []"
    and "current_start s = Some (strftime c)" and "strftime c \<noteq> []"
    and "strptime (strftime c) = c"
    and "previous_datetime s = Some p" and "strptime (strftime p) = p"
  shows "\<exists>s'. (case files_loop strptime strftime files s of
                  Inl e \<Rightarrow> Inl e | Inr s1 \<Rightarrow> append_interval strptime strftime s1) = Inr s'
           \<and> nofile_starts s' = nofile_starts s
                @ c # map hd (tl (spec_runs (p # map (\<lambda>f. strptime (strip_csv f)) files)))
           \<and> nofile_ends s' = nofile_ends s
                @ map (\<lambda>r. last r + hours 1) (spec_runs (p # map (\<lambda>f. strptime (strip_csv f)) files))"
  using assms
proof (induction files arbitrary: s c p)
  case Nil
  have "strftime c = strftime p \<Longrightarrow> c = p"
    using Nil.prems(4,6) by metis
  then show ?case
    using Nil.prems by (auto simp: append_interval_def truthy_def Let_def)
next
  case (Cons fname rest)
  let ?cur = "strptime (strip_csv fname)"
  let ?ts = "map (\<lambda>f. strptime (strip_csv f)) rest"
  have rest: "\<forall>f \<in> set rest. strptime (strftime (strptime (strip_csv f))) = strptime (strip_csv f)
             \<and> strftime (strptime (strip_csv f)) \<noteq> []"
    using Cons.prems(1) by simp
  have cur: "strptime (strftime ?cur) = ?cur" "strftime ?cur \<noteq> []"
    using Cons.prems(1) by simp_all
  obtain q qs where q: "spec_runs (?cur # ?ts) = q # qs"
    using spec_runs_not_Nil [of ?cur ?ts] by (cases "spec_runs (?cur # ?ts)") auto
  have hq: "hd q = ?cur" using hd_hd_spec_runs [of ?cur ?ts] q by simp
  have qne: "q \<noteq> []" using spec_runs_nonempty [of q "?cur # ?ts"] q by simp
  show ?case
  proof (cases "?cur - p > hours 1")
    case True
    have same: "strftime c = strftime p \<Longrightarrow> c = p"
      using Cons.prems(4,6) by metis
    define s1 where "s1 = s\<lparr>nofile_starts := nofile_starts s @ [c],
        nofile_ends := nofile_ends s @ [p + hours 1]\<rparr>"
    have app: "append_interval strptime strftime s = Inr s1"
      using Cons.prems same by (auto simp: append_interval_def truthy_def Let_def s1_def)
    define s2 where "s2 = s1\<lparr>current_start := Some (strftime ?cur),
        previous_datetime := Some ?cur\<rparr>"
    have step: "files_loop strptime strftime (fname # rest) s = files_loop strptime strftime rest s2"
      using True Cons.prems(5) app by (simp add: Let_def truthy_def s2_def)
    have "\<exists>s'. (case files_loop strptime strftime rest s2 of
                  Inl e \<Rightarrow> Inl e | Inr s1 \<Rightarrow> append_interval strptime strftime s1) = Inr s'
           \<and> nofile_starts s' = nofile_starts s2 @ ?cur # map hd (tl (spec_runs (?cur # ?ts)))
           \<and> nofile_ends s' = nofile_ends s2 @ map (\<lambda>r. last r + hours 1) (spec_runs (?cur # ?ts))"
      by (rule Cons.IH [OF rest]) (simp_all add: s2_def cur)
    then show ?thesis
      unfolding step using True q hq by (auto simp: s2_def s1_def)
  next
    case False
    define s2 where "s2 = s\<lparr>previous_datetime := Some ?cur\<rparr>"
    have step: "files_loop strptime strftime (fname # rest) s = files_loop strptime strftime rest s2"
      using False Cons.prems(2,3,5) by (simp add: Let_def truthy_def s2_def)
    have "\<exists>s'. (case files_loop strptime strftime rest s2 of
                  Inl e \<Rightarrow> Inl e | Inr s1 \<Rightarrow> append_interval strptime strftime s1) = Inr s'
           \<and> nofile_starts s' = nofile_starts s2 @ c # map hd (tl (spec_runs (?cur # ?ts)))
           \<and> nofile_ends s' = nofile_ends s2 @ map (\<lambda>r. last r + hours 1) (spec_runs (?cur # ?ts))"
      by (rule Cons.IH [OF rest]) (simp_all add: s2_def cur Cons.prems)
    then show ?thesis
      unfolding step using False q qne by (auto simp: s2_def)
  qed
qed

lemma map_hd_spec_runs: "map hd (spec_runs (t # ts)) = t # map hd (tl (spec_runs (t # ts)))"
  using spec_runs_not_Nil [of t ts] hd_hd_spec_runs [of t ts]
  by (cases "spec_runs (t # ts)") auto

lemma files_to_time_runs:
  assumes "\<forall>f \<in> set files. strptime (strftime (strptime (strip_csv f))) = strptime (strip_csv f)
             \<and> strftime (strptime (strip_csv f)) \<noteq> []"
  shows "files_to_time strptime strftime files =
           Inr (map hd (spec_runs (map (\<lambda>f. strptime (strip_csv f)) files)),
                map (\<lambda>r. last r + hours 1) (spec_runs (map (\<lambda>f. strptime (strip_csv f)) files)))"
proof (cases files)
  case Nil
  then show ?thesis by (simp add: files_to_time_def append_interval_def truthy_def)
next
  case (Cons fname rest)
  let ?cur = "strptime (strip_csv fname)"
  let ?s0 = "\<lparr>nofile_starts = [], nofile_ends = [], current_start = None,
              previous_datetime = None\<rparr>"
  let ?s1 = "\<lparr>nofile_starts = [], nofile_ends = [], current_start = Some (strftime ?cur),
              previous_datetime = Some ?cur\<rparr>"
  have rest: "\<forall>f \<in> set rest. strptime (strftime (strptime (strip_csv f))) = strptime (strip_csv f)
             \<and> strftime (strptime (strip_csv f)) \<noteq> []"
    and cur: "strptime (strftime ?cur) = ?cur" "strftime ?cur \<noteq> []"
    using assms Cons by simp_all
  have step: "files_loop strptime strftime files ?s0 = files_loop strptime strftime rest ?s1"
    by (simp add: Cons Let_def truthy_def)
  have "\<exists>s'. (case files_loop strptime strftime rest ?s1 of
                  Inl e \<Rightarrow> Inl e | Inr s1 \<Rightarrow> append_interval strptime strftime s1) = Inr s'
           \<and> nofile_starts s' = nofile_starts ?s1
                @ ?cur # map hd (tl (spec_runs (?cur # map (\<lambda>f. strptime (strip_csv f)) rest)))
           \<and> nofile_ends s' = nofile_ends ?s1
                @ map (\<lambda>r. last r + hours 1) (spec_runs (?cur # map (\<lambda>f. strptime (strip_csv f)) rest))"
    by (rule files_loop_running [OF rest]) (simp_all add: cur)
  then obtain s' where s': "(case files_loop strptime strftime rest ?s1 of
                  Inl e \<Rightarrow> Inl e | Inr s1 \<Rightarrow> append_interval strptime strftime s1) = Inr s'"
      "nofile_starts s' = ?cur # map hd (tl (spec_runs (?cur # map (\<lambda>f. strptime (strip_csv f)) rest)))"
      "nofile_ends s' = map (\<lambda>r. last r + hours 1) (spec_runs (?cur # map (\<lambda>f. strptime (strip_csv f)) rest))"
    by auto
  have "files_to_time strptime strftime files = Inr (nofile_starts s', nofile_ends s')"
    using s'(1) unfolding files_to_time_def step by (auto split: sum.splits)
  then show ?thesis
    using s'(2,3) map_hd_spec_runs [of ?cur "map (\<lambda>f. strptime (strip_csv f)) rest"] Cons by simp
qed
text \<open>
  C5.  Whatever the list of missing file names, \<open>files_to_time\<close> returns one interval per
  maximal run of missing hours whose consecutive timestamps are at most one hour apart:
  it starts at the first hour of the run and ends one hour past the last hour of the run.
  The runs partition the list in order, consecutive hours within a run are at most one
  hour apart, and neighbouring runs are more than one hour apart; a run that consists of
  a single isolated hour \<open>t\<close> therefore yields the interval from \<open>t\<close> to \<open>t + 1 h\<close>.
  The library calls are assumed to round-trip on the hours named by the files:
  formatting such an hour gives a non-empty string that parses back to the same hour.
\<close>

theorem files_to_time_merges_runs:
  assumes "\<forall>f \<in> set files. strptime (strftime (strptime (strip_csv f))) = strptime (strip_csv f)
             \<and> strftime (strptime (strip_csv f)) \<noteq> []"
  shows "files_to_time strptime strftime files =
           Inr (map hd (spec_runs (map (\<lambda>f. strptime (strip_csv f)) files)),
                map (\<lambda>r. last r + hours 1) (spec_runs (map (\<lambda>f. strptime (strip_csv f)) files)))
         \<and> concat (spec_runs (map (\<lambda>f. strptime (strip_csv f)) files))
             = map (\<lambda>f. strptime (strip_csv f)) files
         \<and> (\<forall>r \<in> set (spec_runs (map (\<lambda>f. strptime (strip_csv f)) files)).
               r \<noteq> [] \<and> close_steps r)
         \<and> far_apart (spec_runs (map (\<lambda>f. strptime (strip_csv f)) files))
         \<and> (\<forall>i < length (spec_runs (map (\<lambda>f. strptime (strip_csv f)) files)). \<forall>t.
               spec_runs (map (\<lambda>f. strptime (strip_csv f)) files) ! i = [t] \<longrightarrow>
               map hd (spec_runs (map (\<lambda>f. strptime (strip_csv f)) files)) ! i = t
               \<and> map (\<lambda>r. last r + hours 1)
                    (spec_runs (map (\<lambda>f. strptime (strip_csv f)) files)) ! i = t + hours 1)"
proof (intro conjI ballI allI impI)
  show "files_to_time strptime strftime files =
           Inr (map hd (spec_runs (map (\<lambda>f. strptime (strip_csv f)) files)),
                map (\<lambda>r. last r + hours 1) (spec_runs (map (\<lambda>f. strptime (strip_csv f)) files)))"
    using assms by (rule files_to_time_runs)
  show "concat (spec_runs (map (\<lambda>f. strptime (strip_csv f)) files))
             = map (\<lambda>f. strptime (strip_csv f)) files"
    by (rule concat_spec_runs)
  show "far_apart (spec_runs (map (\<lambda>f. strptime (strip_csv f)) files))"
    by (rule spec_runs_far)
next
  fix r assume r: "r \<in> set (spec_runs (map (\<lambda>f. strptime (strip_csv f)) files))"
  then show "r \<noteq> []" by (rule spec_runs_nonempty)
  from r show "close_steps r" by (rule spec_runs_close)
next
  fix i t
  assume "i < length (spec_runs (map (\<lambda>f. strptime (strip_csv f)) files))"
    and "spec_runs (map (\<lambda>f. strptime (strip_csv f)) files) ! i = [t]"
  then show "map hd (spec_runs (map (\<lambda>f. strptime (strip_csv f)) files)) ! i = t"
    and "map (\<lambda>r. last r + hours 1)
           (spec_runs (map (\<lambda>f. strptime (strip_csv f)) files)) ! i = t + hours 1"
    by simp_all
qed

theorem files_to_time_merges_runs_witness:
  "files_to_time
     (\<lambda>s. if s = ''01.01.70_00'' then 0 else if s = ''01.01.70_01'' then 3600000000000
          else 18000000000000)
     (\<lambda>t. if t = 0 then ''01.01.70_00'' else if t = 3600000000000 then ''01.01.70_01''
          else ''01.01.70_05'')
     [''01.01.70_00.csv'', ''01.01.70_01.csv'', ''01.01.70_05.csv'']
   = Inr ([0, 18000000000000], [7200000000000, 21600000000000])"
proof -
  let ?P = "\<lambda>s. if s = ''01.01.70_00'' then 0 else if s = ''01.01.70_01'' then 3600000000000
          else (18000000000000 :: int)"
  let ?F = "\<lambda>t :: int. if t = 0 then ''01.01.70_00'' else if t = 3600000000000 then ''01.01.70_01''
          else ''01.01.70_05''"
  let ?files = "[''01.01.70_00.csv'', ''01.01.70_01.csv'', ''01.01.70_05.csv'']"
  have rt: "\<forall>f \<in> set ?files. ?P (?F (?P (strip_csv f))) = ?P (strip_csv f)
             \<and> ?F (?P (strip_csv f)) \<noteq> []"
    by (simp add: strip_csv_def)
  have ts: "map (\<lambda>f. ?P (strip_csv f)) ?files = [0, 3600000000000, 18000000000000]"
    by (simp add: strip_csv_def)
  show ?thesis
    using files_to_time_merges_runs [of ?files ?P ?F, OF rt]
    unfolding ts by (simp add: hours_def)
qed
subsection \<open>\<open>combine_battery_nofile\<close>\<close>

lemma zip_as_map_nth:
  "length xs = length ys \<Longrightarrow> zip xs ys = map (\<lambda>i. (xs ! i, ys ! i)) [0..<length xs]"
  by (rule nth_equalityI) simp_all

lemma combine_equal_lengths:
  assumes "length (start_times @ ne) = length (end_times @ ns)"
  shows "combine_battery_nofile start_times end_times ns ne =
           Inr (map (\<lambda>(a, b). (Some a, Some b))
                  (filter (\<lambda>(a, b). a < b)
                     (zip (sort (start_times @ ne)) (sort (end_times @ ns)))))"
proof -
  let ?cs = "sort (start_times @ ne)" and ?ce = "sort (end_times @ ns)"
  have len: "length ?cs = length ?ce" using assms by simp
  let ?ok = "\<lambda>i. ?cs ! i < ?ce ! i"
  let ?prob = "filter (\<lambda>i. \<not> ?ok i) [0..<length ?cs]"
  have kept: "filter (\<lambda>i. i \<notin> set ?prob) [0..<length ?cs] = filter ?ok [0..<length ?cs]"
    by (rule filter_cong) auto
  have "combine_battery_nofile start_times end_times ns ne =
          Inr (map (\<lambda>i. (Some (?cs ! i), Some (?ce ! i))) (filter ?ok [0..<length ?cs]))"
    unfolding combine_battery_nofile_def Let_def len [symmetric] kept
    by (simp cong: map_cong)
  also have "map (\<lambda>i. (Some (?cs ! i), Some (?ce ! i))) (filter ?ok [0..<length ?cs])
      = map (\<lambda>(a, b). (Some a, Some b))
          (filter (\<lambda>(a, b). a < b) (map (\<lambda>i. (?cs ! i, ?ce ! i)) [0..<length ?cs]))"
    by (simp add: filter_map comp_def)
  also have "map (\<lambda>i. (?cs ! i, ?ce ! i)) [0..<length ?cs] = zip ?cs ?ce"
    using zip_as_map_nth [OF len] by simp
  finally show ?thesis .
qed

text \<open>
  C8.  For every list of battery-derived wear intervals and every list of no-file
  intervals, \<open>combine_battery_nofile\<close> (called as in \<open>main\<close>, with the starts and ends of
  the two lists) returns a table in which every row has a start and an end with
  start strictly before end: the rows are the pairs of the two sorted sequences, taken
  position by position, that satisfy start before end; every other pair is dropped.
\<close>

theorem combine_battery_nofile_start_before_end:
  "\<exists>rows. combine_battery_nofile (map fst wear) (map snd wear) (map fst nofile) (map snd nofile)
            = Inr rows
     \<and> rows = map (\<lambda>(a, b). (Some a, Some b))
                (filter (\<lambda>(a, b). a < b)
                   (zip (sort (map fst wear @ map snd nofile))
                        (sort (map snd wear @ map fst nofile))))
     \<and> (\<forall>row \<in> set rows. \<exists>a b. row = (Some a, Some b) \<and> a < b)"
proof -
  have "length (map fst wear @ map snd nofile) = length (map snd wear @ map fst nofile)"
    by simp
  from combine_equal_lengths [OF this] show ?thesis by auto
qed

theorem combine_battery_nofile_start_before_end_witness:
  "combine_battery_nofile [0, 200] [100, 300] [40, 300] [50, 310]
     = Inr [(Some 0, Some 40), (Some 50, Some 100), (Some 200, Some 300)]"
proof -
  have s1: "sort [0, 200, 50, 310 :: int] = [0, 50, 200, 310]" by simp
  have s2: "sort [100, 300, 40, 300 :: int] = [40, 100, 300, 300]" by simp
  from combine_battery_nofile_start_before_end [of "[(0, 100), (200, 300)]" "[(40, 50), (300, 310)]"]
  show ?thesis by (simp add: s1 s2)
qed
section \<open>Properties of the TimeSeriesReader\<close>

subsection \<open>Files with fewer than 50 rows\<close>

lemma concat_frames_None: "concat_frames df None = df"
  by (simp add: concat_frames_def)

lemma apply_fromtimestamp_cases:
  "apply_fromtimestamp xs =
     (if list_all (\<lambda>x. case x of None \<Rightarrow> True | Some ms \<Rightarrow> in_datetime_range ms) xs
      then Inr (map (map_option (\<lambda>ms. ms * 1000000)) xs) else Inl ValueError)"
  by (induction xs) (auto simp: fromtimestamp_def split: option.splits)

lemma apply_fromtimestamp_length:
  "apply_fromtimestamp xs = Inr tms \<Longrightarrow> length tms = length xs"
  by (auto simp: apply_fromtimestamp_cases split: if_splits)

lemma length_map_filter_zip:
  "length (List.map_filter (\<lambda>(t, r). map_option (\<lambda>t'. (t', r)) t)
             (zip (map (\<lambda>r. map_option g (f r)) df0) df0))
   = length (filter (\<lambda>r. f r \<noteq> None) df0)"
  by (induction df0) (auto simp: List.map_filter_simps)

lemma numeric_rows:
  "filter (\<lambda>r. to_numeric (c r) \<noteq> None) (filter (\<lambda>r. c r \<noteq> Missing) rows)
   = filter (\<lambda>r. is_number (c r)) rows"
  by (induction rows) (auto simp: to_numeric_def is_number_def split: cell.splits)

lemma in_range_rows:
  "list_all (\<lambda>x. case x of None \<Rightarrow> True | Some ms \<Rightarrow> in_datetime_range ms)
     (map (\<lambda>r. to_numeric (c r)) (filter (\<lambda>r. c r \<noteq> Missing) rows))
   = list_all (\<lambda>r. case c r of Number ms \<Rightarrow> in_datetime_range ms | _ \<Rightarrow> True) rows"
  by (induction rows) (auto simp: to_numeric_def split: cell.splits)

lemma acc_watch_csv_short:
  assumes "length (filter (\<lambda>r. is_number (acc_UnixTimestamp r)) rows) < 50"
  shows "acc_watch_csv start_time rows =
     (if list_all (\<lambda>r. case acc_UnixTimestamp r of Number ms \<Rightarrow> in_datetime_range ms | _ \<Rightarrow> True) rows
      then Inr None else Inl ValueError)"
proof -
  let ?df0 = "filter (\<lambda>r. acc_UnixTimestamp r \<noteq> Missing) rows"
  let ?g = "\<lambda>ms :: int. ms * 1000000"
  have m: "map (map_option ?g) (map (\<lambda>r. to_numeric (acc_UnixTimestamp r)) ?df0)
      = map (\<lambda>r. map_option ?g (to_numeric (acc_UnixTimestamp r))) ?df0"
    by simp
  have "length (List.map_filter (\<lambda>(t, r). map_option (\<lambda>t'. (t', r)) t)
          (zip (map (map_option ?g) (map (\<lambda>r. to_numeric (acc_UnixTimestamp r)) ?df0)) ?df0)) < 50"
    unfolding m length_map_filter_zip numeric_rows using assms .
  then show ?thesis
    unfolding acc_watch_csv_def Let_def apply_fromtimestamp_cases in_range_rows
    by simp
qed

lemma acc_folder_loop_skips_short:
  assumes "length (filter (\<lambda>r. is_number (acc_UnixTimestamp r)) rows) < 50"
    and "start_time - hours 1 < tstamp" and "tstamp < end_time"
  shows "acc_folder_loop start_time end_time (pre @ (tstamp, rows) # post) df
       = acc_folder_loop start_time end_time (pre @ post) df"
proof (induction pre arbitrary: df)
  case Nil
  show ?case
    using assms(2,3) by (simp add: acc_watch_csv_short [OF assms(1)] concat_frames_None)
next
  case (Cons f pre)
  obtain t rs where f: "f = (t, rs)" by (cases f)
  show ?case
    unfolding f by (simp add: Cons.IH split: sum.splits)
qed

lemma hr_csv_short:
  assumes "length (filter (\<lambda>r. hr_UnixTimestamp r \<noteq> Missing) rows) < 50"
  shows "hr_csv start_time rows = None"
proof (cases "apply_fromtimestamp (map (\<lambda>r. to_numeric (hr_UnixTimestamp r))
                 (filter (\<lambda>r. hr_UnixTimestamp r \<noteq> Missing) rows))")
  case (Inl e)
  then show ?thesis by (simp add: hr_csv_def)
next
  case (Inr tms)
  from apply_fromtimestamp_length [OF Inr] assms have "length tms < 50" by simp
  then have "min (length tms) (length (filter (\<lambda>r. hr_UnixTimestamp r \<noteq> Missing) rows)) < 50"
    by simp
  with Inr show ?thesis by (simp add: hr_csv_def Let_def del: min_less_iff_disj)
qed

lemma read_hr_folder_skips_short:
  assumes "length (filter (\<lambda>r. hr_UnixTimestamp r \<noteq> Missing) rows) < 50"
  shows "read_hr_folder (pre @ (tstamp, rows) # post) = read_hr_folder (pre @ post)"
  by (simp add: read_hr_folder_def hr_csv_short [OF assms])

subsection \<open>The zero filling\<close>

lemma date_range_mem:
  assumes "0 < f" and "a \<le> t" and "t \<le> b" and "(t - a) mod f = 0"
  shows "t \<in> set (date_range a b f)"
proof -
  let ?k = "nat ((t - a) div f)"
  have d: "0 \<le> (t - a) div f" using assms by (simp add: pos_imp_zdiv_nonneg_iff)
  have "(t - a) div f \<le> (b - a) div f" using assms by (intro zdiv_mono1) simp_all
  then have k: "?k < nat ((b - a) div f) + 1" using d by simp
  have "(t - a) div f * f = t - a" using assms(4) by (simp add: mod_eq_0_iff_dvd)
  then have "t = a + int ?k * f" using d by simp
  moreover have "\<not> b < a" using assms by simp
  ultimately show ?thesis
    unfolding date_range_def using k by (auto simp del: upt_Suc intro!: image_eqI [where x = ?k])
qed

lemma date_range_last:
  assumes "0 < f" and "a \<le> b"
  shows "date_range a b f \<noteq> [] \<and> last (date_range a b f) = a + (b - a) div f * f"
proof -
  have d: "0 \<le> (b - a) div f" using assms by (simp add: pos_imp_zdiv_nonneg_iff)
  have "date_range a b f = map (\<lambda>k. a + int k * f) ([0..<nat ((b - a) div f)] @ [nat ((b - a) div f)])"
    using assms by (simp add: date_range_def)
  then show ?thesis using d by simp
qed

lemma date_range_left_mem:
  assumes "0 < f" and "a \<le> t" and "t < b" and "(t - a) mod f = 0"
  shows "t \<in> set (date_range_left a b f)"
proof -
  let ?pts = "date_range a b f"
  have m: "t \<in> set ?pts" using assms by (intro date_range_mem) simp_all
  have ab: "a \<noteq> b" using assms by simp
  show ?thesis
  proof (cases "?pts \<noteq> [] \<and> last ?pts = b")
    case False
    then show ?thesis using m ab by (auto simp: date_range_left_def Let_def)
  next
    case True
    then have "?pts = butlast ?pts @ [b]" by (metis append_butlast_last_id)
    then have "set ?pts = set (butlast ?pts) \<union> {b}"
      by (metis list.simps(15) set_append empty_set Un_insert_right sup_bot.right_neutral)
    with m assms(3) have "t \<in> set (butlast ?pts)" by auto
    then show ?thesis using True ab by (simp add: date_range_left_def Let_def)
  qed
qed

lemma floor_min_grid: "floor_min t mod 20000000 = 0"
proof -
  have "floor_min t = (t div 60000000000) * 60000000000"
    unfolding floor_min_def minutes_def by (simp add: minus_mod_eq_div_mult)
  also have "\<dots> = (t div 60000000000 * 3000) * 20000000" by simp
  finally show ?thesis by (simp del: mult.assoc)
qed

lemma fill_grid_mem:
  assumes "floor_min (Min (set (map fst raw))) \<le> t"
    and "t < ceil_min (Max (set (map fst raw)))" and "t mod 20000000 = 0"
  shows "t \<in> set (fill_grid raw)"
proof -
  have "(t - floor_min (Min (set (map fst raw)))) mod 20000000 = 0"
    using assms(3) floor_min_grid [of "Min (set (map fst raw))"]
    by (simp add: mod_eq_0_iff_dvd)
  then show ?thesis
    unfolding fill_grid_def using assms by (intro date_range_left_mem) simp_all
qed

lemma unique_set: "set (unique xs) = set xs"
  by (simp add: unique_def)

text \<open>
  A grid time between the first and the last minute of the frame at which the frame has
  no complete sample gets a sample of three zeros, and its epoch is one of the epoch
  timestamps.
\<close>

lemma zero_fill_gap:
  assumes "dropna raw \<noteq> []"
    and "floor_min (Min (set (map fst (dropna raw)))) \<le> t"
    and "t < ceil_min (Max (set (map fst (dropna raw))))"
    and "t mod 20000000 = 0" and "t \<notin> set (map fst (dropna raw))"
  shows "\<exists>df s. zero_fill raw = Inr (df, s) \<and> (t, 0, 0, 0) \<in> set s \<and> (t, 0, 0, 0) \<in> set df
           \<and> floor_epoch t \<in> set (epoch_times df)"
proof -
  let ?raw = "dropna raw"
  let ?s = "map (\<lambda>t. (t, 0::real, 0::real, 0::real)) (filter (\<lambda>t. t \<notin> set (map fst ?raw)) (fill_grid ?raw))"
  let ?df = "sort_key fst (?raw @ ?s)"
  have z: "zero_fill raw = Inr (?df, ?s)"
    using assms(1) by (simp add: zero_fill_def Let_def)
  have g: "t \<in> set (fill_grid ?raw)" using assms(2,3,4) by (rule fill_grid_mem)
  with assms(5) have s: "(t, 0, 0, 0) \<in> set ?s" by auto
  then have d: "(t, 0, 0, 0) \<in> set ?df" by simp
  have "(\<lambda>(t, x, y, z). floor_epoch t) (t, 0::real, 0::real, 0::real) \<in> (\<lambda>(t, x, y, z). floor_epoch t) ` set ?df"
    using d by (rule imageI)
  then have e: "floor_epoch t \<in> set (epoch_times ?df)"
    unfolding epoch_times_def unique_set by simp
  from z s d e show ?thesis by blast
qed

lemma get_counts_csv_zero_fill:
  "zero_fill raw = Inr (df, s) \<Longrightarrow> \<exists>counts. get_counts_csv get_counts raw = Inr (counts, s)"
  by (simp add: get_counts_csv_def Let_def)

text \<open>
  C6 (as amended).  A raw acceleration file with fewer than 50 rows whose \<open>UnixTimestamp\<close>
  is a number gives no series: \<open>acc_watch_csv\<close> returns \<open>None\<close>, or raises a ValueError when
  one of its timestamps is outside the range of \<open>datetime\<close>, and in either case the result
  of \<open>read_watch_acc_folder\<close> is the same as if the file were absent.  A heart-rate file
  with fewer than 50 rows whose \<open>UnixTimestamp\<close> field is present (rows whose timestamp
  cannot be read are counted with them) makes \<open>hr_csv\<close> return \<open>None\<close>, and the result of
  \<open>read_hr_folder\<close> is the same as if the file were absent.  An hour \<open>h\<close> without a complete
  sample in the frame that \<open>get_counts_csv\<close> receives, lying between the first and the
  last minute of that frame, is filled: every 20 ms grid time of the hour is a sample of
  three zeros in the returned frame \<open>s\<close> and in the frame given to the count engine, and
  its epoch is among the epoch timestamps.
\<close>

theorem short_files_rejected:
  "(length (filter (\<lambda>r. is_number (acc_UnixTimestamp r)) rows) < 50 \<longrightarrow>
      acc_watch_csv tstamp rows =
        (if list_all (\<lambda>r. case acc_UnixTimestamp r of Number ms \<Rightarrow> in_datetime_range ms
                           | _ \<Rightarrow> True) rows
         then Inr None else Inl ValueError)
      \<and> (start_time - hours 1 < tstamp \<and> tstamp < end_time \<longrightarrow>
           read_watch_acc_folder start_time end_time (pre @ (tstamp, rows) # post)
           = read_watch_acc_folder start_time end_time (pre @ post)))
   \<and> (length (filter (\<lambda>r. hr_UnixTimestamp r \<noteq> Missing) hr_rows) < 50 \<longrightarrow>
      hr_csv tstamp hr_rows = None
      \<and> read_hr_folder (hr_pre @ (tstamp, hr_rows) # hr_post) = read_hr_folder (hr_pre @ hr_post))
   \<and> (dropna raw \<noteq> [] \<and> floor_min (Min (set (map fst (dropna raw)))) \<le> h
        \<and> h + hours 1 \<le> ceil_min (Max (set (map fst (dropna raw))))
        \<and> (\<forall>t \<in> set (map fst (dropna raw)). t < h \<or> h + hours 1 \<le> t) \<longrightarrow>
      (\<exists>df s counts. zero_fill raw = Inr (df, s)
         \<and> get_counts_csv get_counts raw = Inr (counts, s)
         \<and> (\<forall>t. h \<le> t \<and> t < h + hours 1 \<and> t mod 20000000 = 0 \<longrightarrow>
               (t, 0, 0, 0) \<in> set s \<and> (t, 0, 0, 0) \<in> set df
               \<and> floor_epoch t \<in> set (epoch_times df))))"
proof (intro conjI impI)
  assume short: "length (filter (\<lambda>r. is_number (acc_UnixTimestamp r)) rows) < 50"
  then show "acc_watch_csv tstamp rows =
        (if list_all (\<lambda>r. case acc_UnixTimestamp r of Number ms \<Rightarrow> in_datetime_range ms
                           | _ \<Rightarrow> True) rows
         then Inr None else Inl ValueError)"
    by (rule acc_watch_csv_short)
  assume "start_time - hours 1 < tstamp \<and> tstamp < end_time"
  then show "read_watch_acc_folder start_time end_time (pre @ (tstamp, rows) # post)
           = read_watch_acc_folder start_time end_time (pre @ post)"
    unfolding read_watch_acc_folder_def
    using acc_folder_loop_skips_short [OF short, of start_time tstamp end_time pre post None]
    by simp
next
  assume short: "length (filter (\<lambda>r. hr_UnixTimestamp r \<noteq> Missing) hr_rows) < 50"
  then show "hr_csv tstamp hr_rows = None" by (rule hr_csv_short)
  from short show "read_hr_folder (hr_pre @ (tstamp, hr_rows) # hr_post)
      = read_hr_folder (hr_pre @ hr_post)"
    by (rule read_hr_folder_skips_short)
next
  assume a: "dropna raw \<noteq> [] \<and> floor_min (Min (set (map fst (dropna raw)))) \<le> h
        \<and> h + hours 1 \<le> ceil_min (Max (set (map fst (dropna raw))))
        \<and> (\<forall>t \<in> set (map fst (dropna raw)). t < h \<or> h + hours 1 \<le> t)"
  then have ne: "dropna raw \<noteq> []" by simp
  then obtain df s where z: "zero_fill raw = Inr (df, s)"
    by (simp add: zero_fill_def Let_def)
  from get_counts_csv_zero_fill [OF z] obtain counts
    where c: "get_counts_csv get_counts raw = Inr (counts, s)" by blast
  have "(t, 0, 0, 0) \<in> set s \<and> (t, 0, 0, 0) \<in> set df \<and> floor_epoch t \<in> set (epoch_times df)"
    if t: "h \<le> t \<and> t < h + hours 1 \<and> t mod 20000000 = 0" for t
  proof -
    have "t \<notin> set (map fst (dropna raw))" using a t by auto
    from zero_fill_gap [OF ne _ _ _ this] a t
    obtain df' s' where "zero_fill raw = Inr (df', s')" and "(t, 0, 0, 0) \<in> set s'"
      and "(t, 0, 0, 0) \<in> set df'" and "floor_epoch t \<in> set (epoch_times df')"
      by force
    with z show ?thesis by simp
  qed
  with z c show "\<exists>df s counts. zero_fill raw = Inr (df, s)
         \<and> get_counts_csv get_counts raw = Inr (counts, s)
         \<and> (\<forall>t. h \<le> t \<and> t < h + hours 1 \<and> t mod 20000000 = 0 \<longrightarrow>
               (t, 0, 0, 0) \<in> set s \<and> (t, 0, 0, 0) \<in> set df
               \<and> floor_epoch t \<in> set (epoch_times df))"
    by blast
qed

theorem short_files_rejected_witness:
  "acc_watch_csv 3600000000000
     [\<lparr>acc_UnixTimestamp = Number 3600000, raw_x = Number 4096, raw_y = Number 0, raw_z = Number 0\<rparr>,
      \<lparr>acc_UnixTimestamp = Unreadable, raw_x = Number 0, raw_y = Number 0, raw_z = Number 0\<rparr>]
     = Inr None
   \<and> read_watch_acc_folder 0 7200000000000
       [(3600000000000,
         [\<lparr>acc_UnixTimestamp = Number 3600000, raw_x = Number 4096, raw_y = Number 0,
            raw_z = Number 0\<rparr>,
          \<lparr>acc_UnixTimestamp = Unreadable, raw_x = Number 0, raw_y = Number 0,
            raw_z = Number 0\<rparr>])]
     = Inl KeyError
   \<and> hr_csv 3600000000000
     [\<lparr>hr_UnixTimestamp = Number 3600000, raw_hr = Number 60, raw_hrIbi = Number 1000,
       raw_status = Number 1\<rparr>] = None
   \<and> read_hr_folder
       [(3600000000000,
         [\<lparr>hr_UnixTimestamp = Number 3600000, raw_hr = Number 60, raw_hrIbi = Number 1000,
            raw_status = Number 1\<rparr>])] = []
   \<and> (\<exists>df s counts.
        zero_fill [(0, \<lparr>acc_X = Some 1, acc_Y = Some 0, acc_Z = Some 0\<rparr>),
                   (7200000000000, \<lparr>acc_X = Some 1, acc_Y = Some 0, acc_Z = Some 0\<rparr>)]
          = Inr (df, s)
        \<and> get_counts_csv (\<lambda>samples. [])
            [(0, \<lparr>acc_X = Some 1, acc_Y = Some 0, acc_Z = Some 0\<rparr>),
             (7200000000000, \<lparr>acc_X = Some 1, acc_Y = Some 0, acc_Z = Some 0\<rparr>)]
          = Inr (counts, s)
        \<and> (3600000000000, 0, 0, 0) \<in> set s \<and> (3600000000000, 0, 0, 0) \<in> set df
        \<and> 3600000000000 \<in> set (epoch_times df))"
proof -
  let ?rows = "[\<lparr>acc_UnixTimestamp = Number 3600000, raw_x = Number 4096, raw_y = Number 0,
                  raw_z = Number 0\<rparr>,
                \<lparr>acc_UnixTimestamp = Unreadable, raw_x = Number 0, raw_y = Number 0,
                  raw_z = Number 0\<rparr>]"
  let ?hr = "[\<lparr>hr_UnixTimestamp = Number 3600000, raw_hr = Number 60, raw_hrIbi = Number 1000,
               raw_status = Number 1\<rparr>]"
  let ?raw = "[(0, \<lparr>acc_X = Some 1, acc_Y = Some 0, acc_Z = Some 0\<rparr>),
               (7200000000000, \<lparr>acc_X = Some 1, acc_Y = Some 0, acc_Z = Some 0\<rparr>)]"
  note inst = short_files_rejected [of ?rows 3600000000000 0 7200000000000 "[]" "[]" ?hr "[]" "[]"
      ?raw 3600000000000 "\<lambda>samples. []"]
  have a: "length (filter (\<lambda>r. is_number (acc_UnixTimestamp r)) ?rows) < 50"
    by (simp add: is_number_def)
  have r: "(0::int) - hours 1 < 3600000000000 \<and> (3600000000000::int) < 7200000000000"
    by (simp add: hours_def)
  have i: "list_all (\<lambda>r. case acc_UnixTimestamp r of Number ms \<Rightarrow> in_datetime_range ms
                           | _ \<Rightarrow> True) ?rows"
    by (simp add: in_datetime_range_def)
  have e: "read_watch_acc_folder 0 7200000000000 [] = Inl KeyError"
    by (simp add: read_watch_acc_folder_def)
  have h: "length (filter (\<lambda>r. hr_UnixTimestamp r \<noteq> Missing) ?hr) < 50"
    by simp
  have eh: "read_hr_folder [] = ([] :: hr_sample list)"
    by (simp add: read_hr_folder_def)
  have d: "dropna ?raw = [(0, 1, 0, 0), (7200000000000, 1, 0, 0)]"
    by (simp add: dropna_def List.map_filter_simps)
  have z: "dropna ?raw \<noteq> [] \<and> floor_min (Min (set (map fst (dropna ?raw)))) \<le> 3600000000000
        \<and> 3600000000000 + hours 1 \<le> ceil_min (Max (set (map fst (dropna ?raw))))
        \<and> (\<forall>t \<in> set (map fst (dropna ?raw)). t < 3600000000000 \<or> 3600000000000 + hours 1 \<le> t)"
    unfolding d by (simp add: floor_min_def ceil_min_def hours_def minutes_def)
  from conjunct1 [OF inst] a r i e
  have c1: "acc_watch_csv 3600000000000 ?rows = Inr None
      \<and> read_watch_acc_folder 0 7200000000000 [(3600000000000, ?rows)] = Inl KeyError"
    by simp
  from conjunct1 [OF conjunct2 [OF inst]] h eh
  have c2: "hr_csv 3600000000000 ?hr = None \<and> read_hr_folder [(3600000000000, ?hr)] = []"
    by simp
  from conjunct2 [OF conjunct2 [OF inst]] z
  have "\<exists>df s counts. zero_fill ?raw = Inr (df, s)
         \<and> get_counts_csv (\<lambda>samples. []) ?raw = Inr (counts, s)
         \<and> (\<forall>t. 3600000000000 \<le> t \<and> t < 3600000000000 + hours 1 \<and> t mod 20000000 = 0 \<longrightarrow>
               (t, 0, 0, 0) \<in> set s \<and> (t, 0, 0, 0) \<in> set df
               \<and> floor_epoch t \<in> set (epoch_times df))"
    by (rule mp)
  then obtain df s counts where z1: "zero_fill ?raw = Inr (df, s)"
    and z2: "get_counts_csv (\<lambda>samples. []) ?raw = Inr (counts, s)"
    and z3: "\<forall>t. 3600000000000 \<le> t \<and> t < 3600000000000 + hours 1 \<and> t mod 20000000 = 0 \<longrightarrow>
               (t, 0, 0, 0) \<in> set s \<and> (t, 0, 0, 0) \<in> set df
               \<and> floor_epoch t \<in> set (epoch_times df)"
    by (elim exE conjE)
  have t: "(3600000000000::int) \<le> 3600000000000 \<and> (3600000000000::int) < 3600000000000 + hours 1
      \<and> (3600000000000::int) mod 20000000 = 0"
    by (simp add: hours_def)
  from z3 have "(3600000000000::int) \<le> 3600000000000 \<and> (3600000000000::int) < 3600000000000 + hours 1
      \<and> (3600000000000::int) mod 20000000 = 0 \<longrightarrow>
      (3600000000000, 0, 0, 0) \<in> set s \<and> (3600000000000, 0, 0, 0) \<in> set df
      \<and> floor_epoch 3600000000000 \<in> set (epoch_times df)"
    by (rule spec)
  from mp [OF this t]
  have "(3600000000000, 0, 0, 0) \<in> set s \<and> (3600000000000, 0, 0, 0) \<in> set df
      \<and> floor_epoch 3600000000000 \<in> set (epoch_times df)" .
  moreover have "floor_epoch 3600000000000 = 3600000000000" by (simp add: floor_epoch_def)
  ultimately have c3: "(3600000000000, 0, 0, 0) \<in> set s \<and> (3600000000000, 0, 0, 0) \<in> set df
      \<and> 3600000000000 \<in> set (epoch_times df)"
    by simp
  from z1 z2 c3 have c4: "\<exists>df s counts. zero_fill ?raw = Inr (df, s)
        \<and> get_counts_csv (\<lambda>samples. []) ?raw = Inr (counts, s)
        \<and> (3600000000000, 0, 0, 0) \<in> set s \<and> (3600000000000, 0, 0, 0) \<in> set df
        \<and> 3600000000000 \<in> set (epoch_times df)"
    by (intro exI [of _ df] exI [of _ s] exI [of _ counts] conjI) (rule z1 z2, simp_all)
  from c1 c2 c4 show ?thesis by (intro conjI) (erule conjunct1 conjunct2 | assumption)+
qed

text \<open>
  The claim as stated fails at three places.  A heart-rate file with 49 readable samples
  and one row whose timestamp cannot be read is not rejected: \<open>hr_csv\<close> returns its 49
  samples.  An acceleration file with one row whose timestamp lies beyond the last
  \<open>datetime\<close> does not make \<open>acc_watch_csv\<close> return: it raises.  And the hour of a rejected
  file does not stay without epochs: of three hourly files, the middle one with a single
  row, \<open>read_watch_acc_folder\<close> returns the samples of the first and the third hour, and
  on that frame the zero filling puts a zero sample at the start of the middle hour and
  lists it among the epoch timestamps.
\<close>

theorem short_files_counterexample:
  "hr_csv 0
     (replicate 49 \<lparr>hr_UnixTimestamp = Number 1000, raw_hr = Number 60, raw_hrIbi = Number 1000,
                    raw_status = Number 1\<rparr>
      @ [\<lparr>hr_UnixTimestamp = Unreadable, raw_hr = Number 60, raw_hrIbi = Number 1000,
           raw_status = Number 1\<rparr>])
     = Some (replicate 49 \<lparr>hr_time = 1000000000, hr = 60, hrIbi = Some 1000\<rparr>)
   \<and> acc_watch_csv 0
       [\<lparr>acc_UnixTimestamp = Number 253402300800000, raw_x = Number 0, raw_y = Number 0,
          raw_z = Number 0\<rparr>]
     = Inl ValueError
   \<and> read_watch_acc_folder 0 10800000000000
       [(0, replicate 50 \<lparr>acc_UnixTimestamp = Number 0, raw_x = Number 4096, raw_y = Number 0,
                           raw_z = Number 0\<rparr>),
        (3600000000000, [\<lparr>acc_UnixTimestamp = Number 3600000, raw_x = Number 4096,
                           raw_y = Number 0, raw_z = Number 0\<rparr>]),
        (7200000000000, replicate 50 \<lparr>acc_UnixTimestamp = Number 7200000, raw_x = Number 4096,
                           raw_y = Number 0, raw_z = Number 0\<rparr>)]
     = Inr [(0, \<lparr>acc_X = Some 1, acc_Y = Some 0, acc_Z = Some 0\<rparr>),
            (7200000000000, \<lparr>acc_X = Some 1, acc_Y = Some 0, acc_Z = Some 0\<rparr>)]
   \<and> (case zero_fill [(0, \<lparr>acc_X = Some 1, acc_Y = Some 0, acc_Z = Some 0\<rparr>),
                       (7200000000000, \<lparr>acc_X = Some 1, acc_Y = Some 0, acc_Z = Some 0\<rparr>)] of
         Inl e \<Rightarrow> False
       | Inr (df, s) \<Rightarrow> (3600000000000, 0, 0, 0) \<in> set s \<and> (3600000000000, 0, 0, 0) \<in> set df
                        \<and> 3600000000000 \<in> set (epoch_times df))"
proof -
  let ?raw = "[(0, \<lparr>acc_X = Some 1, acc_Y = Some 0, acc_Z = Some 0\<rparr>),
               (7200000000000, \<lparr>acc_X = Some 1, acc_Y = Some 0, acc_Z = Some 0\<rparr>)]"
  have c1: "hr_csv 0
     (replicate 49 \<lparr>hr_UnixTimestamp = Number 1000, raw_hr = Number 60, raw_hrIbi = Number 1000,
                    raw_status = Number 1\<rparr>
      @ [\<lparr>hr_UnixTimestamp = Unreadable, raw_hr = Number 60, raw_hrIbi = Number 1000,
           raw_status = Number 1\<rparr>])
     = Some (replicate 49 \<lparr>hr_time = 1000000000, hr = 60, hrIbi = Some 1000\<rparr>)"
    by code_simp
  have c2: "acc_watch_csv 0
       [\<lparr>acc_UnixTimestamp = Number 253402300800000, raw_x = Number 0, raw_y = Number 0,
          raw_z = Number 0\<rparr>]
     = Inl ValueError"
    by code_simp
  have c3: "read_watch_acc_folder 0 10800000000000
       [(0, replicate 50 \<lparr>acc_UnixTimestamp = Number 0, raw_x = Number 4096, raw_y = Number 0,
                           raw_z = Number 0\<rparr>),
        (3600000000000, [\<lparr>acc_UnixTimestamp = Number 3600000, raw_x = Number 4096,
                           raw_y = Number 0, raw_z = Number 0\<rparr>]),
        (7200000000000, replicate 50 \<lparr>acc_UnixTimestamp = Number 7200000, raw_x = Number 4096,
                           raw_y = Number 0, raw_z = Number 0\<rparr>)]
     = Inr ?raw"
    by code_simp
  have d: "dropna ?raw = [(0, 1, 0, 0), (7200000000000, 1, 0, 0)]"
    by (simp add: dropna_def List.map_filter_simps)
  have "\<exists>df s. zero_fill ?raw = Inr (df, s) \<and> (3600000000000, 0, 0, 0) \<in> set s
      \<and> (3600000000000, 0, 0, 0) \<in> set df \<and> floor_epoch 3600000000000 \<in> set (epoch_times df)"
    by (rule zero_fill_gap)
      (simp_all add: d floor_min_def ceil_min_def minutes_def)
  moreover have "floor_epoch 3600000000000 = 3600000000000" by (simp add: floor_epoch_def)
  ultimately have c4: "case zero_fill ?raw of
         Inl e \<Rightarrow> False
       | Inr (df, s) \<Rightarrow> (3600000000000, 0, 0, 0) \<in> set s \<and> (3600000000000, 0, 0, 0) \<in> set df
                        \<and> 3600000000000 \<in> set (epoch_times df)"
    by auto
  from c1 c2 c3 c4 show ?thesis by (intro conjI)
qed

subsection \<open>Duplicate timestamps and sorting\<close>
























text \<open>
  On a file whose rows are not in the order of their timestamps the sorted labels are put
  on rows that stay in file order: a timestamp then carries the sample of another
  timestamp.
\<close>

lemma acc_set_index_relabels:
  "acc_set_index [(80000000, \<lparr>acc_X = Some 1, acc_Y = Some 0, acc_Z = Some 0\<rparr>),
                  (40000000, \<lparr>acc_X = Some 2, acc_Y = Some 0, acc_Z = Some 0\<rparr>)]
   = [(40000000, \<lparr>acc_X = Some 1, acc_Y = Some 0, acc_Z = Some 0\<rparr>),
      (80000000, \<lparr>acc_X = Some 2, acc_Y = Some 0, acc_Z = Some 0\<rparr>)]"
  by (simp add: acc_set_index_def duplicated_def loc_def upt_rec)



section \<open>Properties of the acrophase canonicalisation\<close>







section \<open>Properties of the non-parametric metrics\<close>

subsection \<open>Time-of-day keys of a repeated day\<close>

lemma shift_div_mod:
  fixes t H n k :: int
  assumes "H \<noteq> 0"
  shows "((t + H * (n * k)) div H) mod n = (t div H) mod n"
proof -
  have "(t + H * (n * k)) div H = n * k + t div H"
    using assms by (rule div_mult_self2)
  then show ?thesis by simp
qed

lemma hour_of_shift: "hour_of (t + int d * hours 24) = hour_of t"
proof -
  have e: "int d * hours 24 = hours 1 * (24 * int d)"
    by (simp add: hours_def)
  have "hours 1 \<noteq> 0" by (simp add: hours_def)
  then show ?thesis
    unfolding hour_of_def e by (rule shift_div_mod)
qed

lemma minute_of_shift: "minute_of (t + int d * hours 24) = minute_of t"
proof -
  have e: "int d * hours 24 = minutes 1 * (60 * (24 * int d))"
    by (simp add: hours_def minutes_def)
  have "minutes 1 \<noteq> 0" by (simp add: minutes_def)
  then show ?thesis
    unfolding minute_of_def e by (rule shift_div_mod)
qed

subsection \<open>Sums over a repeated list\<close>

lemma sum_list_concat_replicate:
  "sum_list (concat (replicate n xs)) = real n * sum_list (xs :: real list)"
  by (induction n) (simp_all add: algebra_simps)

lemma length_concat_replicate: "length (concat (replicate n xs)) = n * length xs"
  by (induction n) simp_all

lemma map_concat_replicate: "map f (concat (replicate n xs)) = concat (replicate n (map f xs))"
  by (induction n) simp_all

lemma filter_single:
  "distinct (map f xs) \<Longrightarrow> x \<in> set xs \<Longrightarrow> filter (\<lambda>y. f y = f x) xs = [x]"
proof (induction xs)
  case Nil
  then show ?case by simp
next
  case (Cons a xs)
  show ?case
  proof (cases "a = x")
    case True
    have "f x \<notin> set (map f xs)" using Cons.prems(1) True by simp
    then have "\<forall>y \<in> set xs. f y \<noteq> f x" by (metis image_eqI list.set_map)
    then have "filter (\<lambda>y. f y = f x) xs = []"
      by (simp add: filter_empty_conv)
    then show ?thesis using True by simp
  next
    case False
    then have x: "x \<in> set xs" using Cons.prems(2) by simp
    then have "f a \<noteq> f x" using Cons.prems(1) by auto
    then show ?thesis using Cons.IH x Cons.prems(1) by simp
  qed
qed

subsection \<open>The sample variance\<close>

lemma series_var_mset:
  assumes "mset xs = mset ys"
  shows "series_var xs = series_var ys"
proof -
  have len: "length xs = length ys" using assms by (rule mset_eq_length)
  have s: "sum_list (map g xs) = sum_list (map g ys)" for g :: "real \<Rightarrow> real"
  proof -
    have "sum_mset (mset (map g xs)) = sum_mset (mset (map g ys))"
      using assms by simp
    then show ?thesis by (simp only: sum_mset_sum_list)
  qed
  have s1: "sum_list xs = sum_list ys" using s [of "\<lambda>x. x"] by simp
  have s2: "sum_list (map (\<lambda>x. (x - c)\<^sup>2) xs) = sum_list (map (\<lambda>x. (x - c)\<^sup>2) ys)" for c
    by (rule s)
  show ?thesis
    unfolding series_var_def len s1 s2 by (rule refl)
qed

lemma series_var_repeated:
  assumes "2 \<le> length xs" and "1 \<le> n"
  shows "series_var (concat (replicate n xs))
       = Some (real n * sum_list (map (\<lambda>x. (x - sum_list xs / real (length xs))\<^sup>2) xs)
               / (real n * real (length xs) - 1))"
proof -
  have n: "real n \<noteq> 0" using assms(2) by simp
  have l: "real (length xs) \<noteq> 0" using assms(1) by auto
  have "2 \<le> n * length xs"
    using assms by (metis mult_le_mono nat_mult_1)
  then have big: "\<not> length (concat (replicate n xs)) < 2"
    by (simp add: length_concat_replicate)
  have m: "sum_list (concat (replicate n xs)) / real (length (concat (replicate n xs)))
         = sum_list xs / real (length xs)"
    using n l by (simp add: sum_list_concat_replicate length_concat_replicate)
  have "sum_list (map (\<lambda>x. (x - sum_list xs / real (length xs))\<^sup>2) (concat (replicate n xs)))
      = real n * sum_list (map (\<lambda>x. (x - sum_list xs / real (length xs))\<^sup>2) xs)"
    by (simp only: map_concat_replicate sum_list_concat_replicate)
  then show ?thesis
    unfolding series_var_def m using big
    by (simp add: length_concat_replicate)
qed

lemma squares_sum_pos:
  assumes "a \<in> set xs" and "b \<in> set xs" and "a \<noteq> (b :: real)"
  shows "sum_list (map (\<lambda>x. (x - m)\<^sup>2) xs) > 0"
proof -
  have nonneg: "0 \<le> y" if "y \<in> set (map (\<lambda>x. (x - m)\<^sup>2) xs)" for y
    using that by auto
  have "sum_list (map (\<lambda>x. (x - m)\<^sup>2) xs) \<noteq> 0"
  proof
    assume "sum_list (map (\<lambda>x. (x - m)\<^sup>2) xs) = 0"
    with sum_list_nonneg_eq_0_iff [OF nonneg]
    have z: "\<forall>y \<in> set (map (\<lambda>x. (x - m)\<^sup>2) xs). y = 0" by blast
    have "(a - m)\<^sup>2 \<in> set (map (\<lambda>x. (x - m)\<^sup>2) xs)"
      and "(b - m)\<^sup>2 \<in> set (map (\<lambda>x. (x - m)\<^sup>2) xs)"
      using assms(1,2) by auto
    with z have "(a - m)\<^sup>2 = 0" "(b - m)\<^sup>2 = 0" by blast+
    then have "a = m" "b = m" by simp_all
    with assms(3) show False by simp
  qed
  moreover have "0 \<le> sum_list (map (\<lambda>x. (x - m)\<^sup>2) xs)"
    by (rule sum_list_nonneg) (rule nonneg)
  ultimately show ?thesis by linarith
qed
subsection \<open>A signal that repeats every 24 hours\<close>

lemma concat_replicate_snoc: "concat (replicate n xs) @ xs = xs @ concat (replicate n xs)"
  by (induction n) simp_all

lemma repeat_daily_Suc:
  "repeat_daily day (Suc n)
     = repeat_daily day n @ map (\<lambda>(t, v). (t + int n * hours 24, v)) day"
  by (simp add: repeat_daily_def)

lemma repeated_group_values:
  "map snd (filter (\<lambda>(t, v). Q (hour_of t, minute_of t)) (repeat_daily day n))
     = concat (replicate n (map snd (filter (\<lambda>(t, v). Q (hour_of t, minute_of t)) day)))"
proof (induction n)
  case 0
  show ?case by (simp add: repeat_daily_def)
next
  case (Suc n)
  have "map snd (filter (\<lambda>(t, v). Q (hour_of t, minute_of t))
          (map (\<lambda>(t, v). (t + int n * hours 24, v)) day))
      = map snd (filter (\<lambda>(t, v). Q (hour_of t, minute_of t)) day)"
    by (induction day) (auto simp: hour_of_shift minute_of_shift)
  then show ?case
    unfolding repeat_daily_Suc by (simp add: Suc.IH concat_replicate_snoc)
qed

lemma repeated_values:
  "map snd (repeat_daily day n) = concat (replicate n (map snd day))"
  using repeated_group_values [of "\<lambda>k. True" day n] by simp

lemma repeated_keys:
  assumes "1 \<le> n"
  shows "set (map (\<lambda>(t, v). (hour_of t, minute_of t)) (repeat_daily day n))
       = set (map (\<lambda>(t, v). (hour_of t, minute_of t)) day)"
  using assms
proof (induction n)
  case 0
  then show ?case by simp
next
  case (Suc n)
  have last_day: "set (map (\<lambda>(t, v). (hour_of t, minute_of t))
          (map (\<lambda>(t, v). (t + int n * hours 24, v)) day))
      = set (map (\<lambda>(t, v). (hour_of t, minute_of t)) day)"
    by (induction day) (auto simp: hour_of_shift minute_of_shift)
  show ?case
  proof (cases "n = 0")
    case True
    then show ?thesis
      unfolding repeat_daily_Suc using last_day by (simp add: repeat_daily_def)
  next
    case False
    then have "1 \<le> n" by simp
    from Suc.IH [OF this] show ?thesis
      unfolding repeat_daily_Suc using last_day by simp
  qed
qed

text \<open>The group means of a repeated day are the group means of the single day.\<close>

lemma group_means_repeated:
  assumes "1 \<le> n"
  shows "group_means (\<lambda>t. (hour_of t, minute_of t)) (repeat_daily day n)
       = group_means (\<lambda>t. (hour_of t, minute_of t)) day"
proof -
  let ?key = "\<lambda>t. (hour_of t, minute_of t)"
  have keys: "sort (remdups (map (\<lambda>(t, v). ?key t) (repeat_daily day n)))
            = sort (remdups (map (\<lambda>(t, v). ?key t) day))"
    using repeated_keys [OF assms, of day]
    by (simp only: sorted_list_of_set_sort_remdups [symmetric])
  have n: "real n \<noteq> 0" using assms by simp
  have mean: "sum_list (map snd (filter (\<lambda>(t, v). ?key t = k) (repeat_daily day n)))
          / real (length (filter (\<lambda>(t, v). ?key t = k) (repeat_daily day n)))
        = sum_list (map snd (filter (\<lambda>(t, v). ?key t = k) day))
          / real (length (filter (\<lambda>(t, v). ?key t = k) day))" for k
  proof -
    have v: "map snd (filter (\<lambda>(t, v). ?key t = k) (repeat_daily day n))
        = concat (replicate n (map snd (filter (\<lambda>(t, v). ?key t = k) day)))"
      by (rule repeated_group_values [of "\<lambda>k'. k' = k"])
    have l: "length (filter (\<lambda>(t, v). ?key t = k) (repeat_daily day n))
        = n * length (filter (\<lambda>(t, v). ?key t = k) day)"
      using arg_cong [OF v, of length] by (simp add: length_concat_replicate)
    show ?thesis
      unfolding v l using n by (simp add: sum_list_concat_replicate)
  qed
  show ?thesis
    unfolding group_means_def keys by (simp only: mean)
qed

text \<open>
  When every time-of-day slot occurs once, the group means are the values themselves, up
  to their order.
\<close>

lemma group_means_distinct:
  assumes "distinct (map (\<lambda>(t, v). key t) day)"
  shows "mset (group_means key day) = mset (map snd day)"
proof -
  let ?kf = "\<lambda>(t, v). key t"
  let ?h = "\<lambda>k. sum_list (map snd (filter (\<lambda>(t, v). key t = k) day))
               / real (length (filter (\<lambda>(t, v). key t = k) day))"
  have single: "?h (?kf x) = snd x" if "x \<in> set day" for x
  proof -
    have f1: "filter (\<lambda>y. ?kf y = ?kf x) day = [x]"
      using assms that by (rule filter_single)
    have f2: "filter (\<lambda>(t, v). key t = ?kf x) day = filter (\<lambda>y. ?kf y = ?kf x) day"
      by (rule filter_cong) auto
    show ?thesis unfolding f2 f1 by simp
  qed
  have "mset (group_means key day) = mset (map ?h (sort (map ?kf day)))"
    unfolding group_means_def using assms by (simp only: distinct_remdups_id)
  also have "\<dots> = mset (map ?h (map ?kf day))"
    by (simp only: mset_map mset_sort)
  also have "map ?h (map ?kf day) = map snd day"
    using single by (simp cong: map_cong)
  finally show ?thesis .
qed

lemma IS_of_repeated_day:
  assumes "distinct (map (\<lambda>(t, v). (hour_of t, minute_of t)) day)"
    and "2 \<le> length day" and "1 \<le> n_days"
    and "\<exists>x \<in> set day. \<exists>y \<in> set day. snd x \<noteq> snd y"
  shows "IS (non_parametrics (repeat_daily day n_days))
       = Some ((real n_days * real (length day) - 1) / (real n_days * (real (length day) - 1)))"
proof -
  let ?vals = "map snd day"
  let ?SS = "sum_list (map (\<lambda>x. (x - sum_list ?vals / real (length ?vals))\<^sup>2) ?vals)"
  have G: "2 \<le> length ?vals" using assms(2) by simp
  have pos: "0 < ?SS"
  proof -
    from assms(4) obtain x y where "x \<in> set day" "y \<in> set day" "snd x \<noteq> snd y" by blast
    then have "snd x \<in> set ?vals" "snd y \<in> set ?vals" by simp_all
    then show ?thesis using \<open>snd x \<noteq> snd y\<close> by (rule squares_sum_pos)
  qed
  have frac: "series_var (group_means (\<lambda>t. (hour_of t, minute_of t)) (repeat_daily day n_days))
      = Some (?SS / (real (length ?vals) - 1))"
  proof -
    have "series_var (group_means (\<lambda>t. (hour_of t, minute_of t)) (repeat_daily day n_days))
        = series_var (group_means (\<lambda>t. (hour_of t, minute_of t)) day)"
      by (simp only: group_means_repeated [OF assms(3)])
    also have "\<dots> = series_var ?vals"
      by (rule series_var_mset) (rule group_means_distinct [OF assms(1)])
    also have "\<dots> = Some (?SS / (real (length ?vals) - 1))"
      using G by (simp add: series_var_def)
    finally show ?thesis .
  qed
  have daily: "series_var (map snd (repeat_daily day n_days))
      = Some (real n_days * ?SS / (real n_days * real (length ?vals) - 1))"
    unfolding repeated_values by (rule series_var_repeated [OF G assms(3)])
  have n: "0 < real n_days" using assms(3) by simp
  have g1: "0 < real (length ?vals) - 1" using G by simp
  have "1 * 2 \<le> real n_days * real (length ?vals)"
    using assms(3) G by (intro mult_mono) simp_all
  then have g2: "0 < real n_days * real (length ?vals) - 1" by simp
  have nz: "real n_days * ?SS / (real n_days * real (length ?vals) - 1) \<noteq> 0"
    using n pos g2 by simp
  have "IS (non_parametrics (repeat_daily day n_days))
      = Some ((?SS / (real (length ?vals) - 1))
              / (real n_days * ?SS / (real n_days * real (length ?vals) - 1)))"
    unfolding non_parametrics_def Let_def frac daily using nz by (simp add: ratio_def)
  also have "(?SS / (real (length ?vals) - 1))
              / (real n_days * ?SS / (real n_days * real (length ?vals) - 1))
      = (real n_days * real (length ?vals) - 1) / (real n_days * (real (length ?vals) - 1))"
    using pos n g1 g2 by (simp add: field_simps)
  finally show ?thesis by simp
qed
text \<open>
  C10 (as amended).  \<open>non_parametrics\<close> computes IS as the sample variance of the group
  means over the (hour, minute) time-of-day slots divided by the overall sample variance,
  and IV as the mean squared first difference divided by the overall sample variance.
  For a signal that is not constant and repeats identically on \<open>n_days\<close> consecutive days,
  each of its at least two time-of-day slots being sampled once a day, IS equals
  \<open>(n_days * slots - 1) / (n_days * (slots - 1))\<close>: exactly 1 for a single day, and
  \<open>1 + (n_days - 1) / (n_days * (slots - 1))\<close> in general.
\<close>

theorem non_parametrics_IS_IV:
  "IS (non_parametrics data)
     = ratio (series_var (group_means (\<lambda>t. (hour_of t, minute_of t)) data))
             (series_var (map snd data))
   \<and> IV (non_parametrics data)
     = ratio (series_mean (squared_diffs (map snd data))) (series_var (map snd data))
   \<and> (distinct (map (\<lambda>(t, v). (hour_of t, minute_of t)) day) \<and> 2 \<le> length day \<and> 1 \<le> n_days
        \<and> (\<exists>x \<in> set day. \<exists>y \<in> set day. snd x \<noteq> snd y) \<longrightarrow>
      IS (non_parametrics (repeat_daily day n_days))
        = Some ((real n_days * real (length day) - 1) / (real n_days * (real (length day) - 1)))
      \<and> (real n_days * real (length day) - 1) / (real n_days * (real (length day) - 1))
        = 1 + (real n_days - 1) / (real n_days * (real (length day) - 1)))"
proof (intro conjI impI)
  show "IS (non_parametrics data)
     = ratio (series_var (group_means (\<lambda>t. (hour_of t, minute_of t)) data))
             (series_var (map snd data))"
    by (simp add: non_parametrics_def Let_def)
  show "IV (non_parametrics data)
     = ratio (series_mean (squared_diffs (map snd data))) (series_var (map snd data))"
    by (simp add: non_parametrics_def Let_def)
next
  assume h: "distinct (map (\<lambda>(t, v). (hour_of t, minute_of t)) day) \<and> 2 \<le> length day \<and> 1 \<le> n_days
        \<and> (\<exists>x \<in> set day. \<exists>y \<in> set day. snd x \<noteq> snd y)"
  then show "IS (non_parametrics (repeat_daily day n_days))
        = Some ((real n_days * real (length day) - 1) / (real n_days * (real (length day) - 1)))"
    by (intro IS_of_repeated_day) simp_all
  have "0 < real n_days" "0 < real (length day) - 1" using h by simp_all
  then show "(real n_days * real (length day) - 1) / (real n_days * (real (length day) - 1))
        = 1 + (real n_days - 1) / (real n_days * (real (length day) - 1))"
    by (simp add: field_simps)
qed

theorem non_parametrics_IS_IV_witness:
  "IS (non_parametrics (repeat_daily [(0, 0), (60000000000, 1)] 2)) = Some (3 / 2)
   \<and> IS (non_parametrics (repeat_daily [(0, 0), (60000000000, 1)] 1)) = Some 1"
proof -
  let ?day = "[(0, 0), (60000000000, 1)] :: (timestamp \<times> real) list"
  have d: "distinct (map (\<lambda>(t, v). (hour_of t, minute_of t)) ?day)"
    by (simp add: hour_of_def minute_of_def hours_def minutes_def)
  have v: "\<exists>x \<in> set ?day. \<exists>y \<in> set ?day. snd x \<noteq> snd y"
  proof (intro bexI)
    show "snd (0 :: timestamp, 0 :: real) \<noteq> snd (60000000000 :: timestamp, 1 :: real)" by simp
  qed simp_all
  from non_parametrics_IS_IV [of ?day ?day 2] d v
  have a: "IS (non_parametrics (repeat_daily ?day 2)) = Some (3 / 2)" by simp
  from non_parametrics_IS_IV [of ?day ?day 1] d v
  have b: "IS (non_parametrics (repeat_daily ?day 1)) = Some 1" by simp
  from a b show ?thesis by simp
qed

text \<open>
  The claim as stated fails on both counts.  On four samples at 00:00, 00:01, 01:00 and
  01:01 with the values 0, 1, 0, 1 the function returns IS = 1, whereas the variance of
  the hour-of-day group means divided by the overall variance is 0.  On the two samples
  0 and 1 at 00:00 and 00:01, repeated identically on a second day, IS is 3/2, not 1.
\<close>

theorem non_parametrics_IS_counterexample:
  "IS (non_parametrics
         [(0, 0), (60000000000, 1), (3600000000000, 0), (3660000000000, 1)]) = Some 1
   \<and> spec_IS_hour_of_day
         [(0, 0), (60000000000, 1), (3600000000000, 0), (3660000000000, 1)] = Some 0
   \<and> repeat_daily [(0, 0), (60000000000, 1)] 2
       = [(0, 0), (60000000000, 1), (86400000000000, 0), (86460000000000, 1)]
   \<and> IS (non_parametrics (repeat_daily [(0, 0), (60000000000, 1)] 2)) = Some (3 / 2)
   \<and> Some (3 / 2) \<noteq> Some (1 :: real)"
  by (simp add: repeat_daily_def upt_rec non_parametrics_def spec_IS_hour_of_day_def
      group_means_def series_var_def ratio_def hour_of_def minute_of_def hours_def
      minutes_def Let_def power2_eq_square)
end
